theory Spec2Isabelle
  imports Complex_Main "HOL-Library.Word"
begin

section \<open>JavaScript numbers\<close>

text \<open>
  The analysis engine computes with JavaScript numbers. They are modelled as exact reals
  together with the three special values a division can produce: \<open>NaN\<close> (from \<open>0/0\<close>
  and from arithmetic on \<open>undefined\<close>), and the two infinities (from \<open>x/0\<close> with
  \<open>x \<noteq> 0\<close>). Rounding error, overflow of finite sums and the sign of zero are outside
  the model: a finite result is the exact real the formula denotes.
\<close>

datatype jsnum = NaN | PInf | NInf | Fin real

fun inf_of_sign :: "real \<Rightarrow> jsnum" where
  "inf_of_sign s = (if 0 < s then PInf else if s < 0 then NInf else NaN)"

fun sign_of :: "jsnum \<Rightarrow> real" where
  "sign_of (Fin a) = sgn a"
| "sign_of PInf = 1"
| "sign_of NInf = -1"
| "sign_of NaN = 0"

fun jadd :: "jsnum \<Rightarrow> jsnum \<Rightarrow> jsnum" where
  "jadd (Fin a) (Fin b) = Fin (a + b)"
| "jadd NaN _ = NaN"
| "jadd _ NaN = NaN"
| "jadd PInf NInf = NaN"
| "jadd NInf PInf = NaN"
| "jadd PInf _ = PInf"
| "jadd _ PInf = PInf"
| "jadd NInf _ = NInf"
| "jadd _ NInf = NInf"

fun jneg :: "jsnum \<Rightarrow> jsnum" where
  "jneg (Fin a) = Fin (- a)"
| "jneg PInf = NInf"
| "jneg NInf = PInf"
| "jneg NaN = NaN"

definition jsub :: "jsnum \<Rightarrow> jsnum \<Rightarrow> jsnum" where
  "jsub a b = jadd a (jneg b)"

fun jmul :: "jsnum \<Rightarrow> jsnum \<Rightarrow> jsnum" where
  "jmul (Fin a) (Fin b) = Fin (a * b)"
| "jmul NaN _ = NaN"
| "jmul _ NaN = NaN"
| "jmul a b = inf_of_sign (sign_of a * sign_of b)"

fun jdiv :: "jsnum \<Rightarrow> jsnum \<Rightarrow> jsnum" where
  "jdiv (Fin a) (Fin b) = (if b = 0 then inf_of_sign a else Fin (a / b))"
| "jdiv NaN _ = NaN"
| "jdiv _ NaN = NaN"
| "jdiv (Fin a) _ = Fin 0"
| "jdiv a (Fin b) = inf_of_sign (sign_of a * (if 0 \<le> b then 1 else -1))"
| "jdiv _ _ = NaN"

fun jabs :: "jsnum \<Rightarrow> jsnum" where
  "jabs (Fin a) = Fin \<bar>a\<bar>"
| "jabs PInf = PInf"
| "jabs NInf = PInf"
| "jabs NaN = NaN"

fun jsqrt :: "jsnum \<Rightarrow> jsnum" where
  "jsqrt (Fin a) = (if a < 0 then NaN else Fin (sqrt a))"
| "jsqrt PInf = PInf"
| "jsqrt _ = NaN"

text \<open>\<open>Math.pow(x, 2)\<close>.\<close>

definition jpow2 :: "jsnum \<Rightarrow> jsnum" where
  "jpow2 a = jmul a a"

text \<open>The comparisons \<open><\<close>, \<open>>\<close>, \<open><=\<close>, \<open>>=\<close> and \<open>===\<close>: all false on \<open>NaN\<close>.\<close>

fun jlt :: "jsnum \<Rightarrow> jsnum \<Rightarrow> bool" where
  "jlt (Fin a) (Fin b) = (a < b)"
| "jlt NaN _ = False"
| "jlt _ NaN = False"
| "jlt _ NInf = False"
| "jlt NInf _ = True"
| "jlt PInf _ = False"
| "jlt _ PInf = True"

definition jgt :: "jsnum \<Rightarrow> jsnum \<Rightarrow> bool" where
  "jgt a b = jlt b a"

fun jeq :: "jsnum \<Rightarrow> jsnum \<Rightarrow> bool" where
  "jeq NaN _ = False"
| "jeq _ NaN = False"
| "jeq a b = (a = b)"

definition jle :: "jsnum \<Rightarrow> jsnum \<Rightarrow> bool" where
  "jle a b = (jlt a b \<or> jeq a b)"

definition jge :: "jsnum \<Rightarrow> jsnum \<Rightarrow> bool" where
  "jge a b = jle b a"

text \<open>\<open>Math.min\<close> and \<open>Math.max\<close>: \<open>NaN\<close> as soon as one argument is \<open>NaN\<close>.\<close>

fun jmin :: "jsnum \<Rightarrow> jsnum \<Rightarrow> jsnum" where
  "jmin NaN _ = NaN"
| "jmin _ NaN = NaN"
| "jmin a b = (if jlt b a then b else a)"

fun jmax :: "jsnum \<Rightarrow> jsnum \<Rightarrow> jsnum" where
  "jmax NaN _ = NaN"
| "jmax _ NaN = NaN"
| "jmax a b = (if jlt a b then b else a)"

text \<open>Truthiness of a number in a condition (\<open>x && ...\<close>): false for \<open>0\<close> and \<open>NaN\<close>.\<close>

fun truthy :: "jsnum \<Rightarrow> bool" where
  "truthy (Fin a) = (a \<noteq> 0)"
| "truthy NaN = False"
| "truthy _ = True"

text \<open>A finite value inside a closed interval.\<close>

fun inRange :: "real \<Rightarrow> real \<Rightarrow> jsnum \<Rightarrow> bool" where
  "inRange lo hi (Fin a) = (lo \<le> a \<and> a \<le> hi)"
| "inRange lo hi _ = False"

section \<open>Data model\<close>

text \<open>
  \<open>ImageData\<close>: the decoded pixel buffer, a \<open>Uint8ClampedArray\<close> of RGBA bytes in
  row-major order together with its dimensions. The browser only builds such an object
  with positive dimensions and \<open>data.length = 4 * width * height\<close>; \<open>wellFormed\<close>
  states that.
\<close>

record ImageData =
  width :: nat
  height :: nat
  data :: "8 word list"

definition wellFormed :: "ImageData \<Rightarrow> bool" where
  "wellFormed img =
     (0 < width img \<and> 0 < height img \<and> length (data img) = 4 * width img * height img)"

text \<open>
  Reading \<open>data[i]\<close> as a number: the byte when \<open>i\<close> is in range; out of range the
  read gives \<open>undefined\<close>, which every arithmetic operation and \<open>Math.max\<close>/\<open>Math.min\<close>
  turn into \<open>NaN\<close>.
\<close>

definition byteAt :: "8 word list \<Rightarrow> nat \<Rightarrow> jsnum" where
  "byteAt d i = (if i < length d then Fin (real (unat (d ! i))) else NaN)"

text \<open>The luminance expression \<open>0.299 * data[idx] + 0.587 * data[idx + 1] + 0.114 * data[idx + 2]\<close>.\<close>

definition gray :: "8 word list \<Rightarrow> nat \<Rightarrow> jsnum" where
  "gray d idx =
     jadd (jadd (jmul (Fin 0.299) (byteAt d idx)) (jmul (Fin 0.587) (byteAt d (idx + 1))))
          (jmul (Fin 0.114) (byteAt d (idx + 2)))"

subsection \<open>Blur analysis (blur-detection.ts)\<close>

datatype BlurType = Motion | Focus | Gaussian | NoBlur

record BlurRegion =
  region_x :: nat
  region_y :: nat
  region_width :: nat
  region_height :: nat
  blurScore :: jsnum
  region_type :: BlurType

record BlurAnalysis =
  overallBlurScore :: jsnum
  blurType :: BlurType
  blurRegions :: "BlurRegion list"
  blur_confidence :: jsnum

subsection \<open>Contrast and brightness analysis (contrast-brightness-analysis.ts)\<close>

record ContrastMetrics =
  globalContrast :: jsnum
  localContrast :: jsnum
  michelsonContrast :: jsnum
  rmsContrast :: jsnum
  contrastRatio :: jsnum

record BrightnessDistribution =
  shadows :: jsnum
  midtones :: jsnum
  highlights :: jsnum

datatype ExposureLevel = Underexposed | Optimal | Overexposed

record BrightnessMetrics =
  averageBrightness :: jsnum
  medianBrightness :: jsnum
  brightnessDistribution :: BrightnessDistribution
  exposureLevel :: ExposureLevel

record HistogramData =
  red :: "nat list"
  green :: "nat list"
  blue :: "nat list"
  luminance :: "nat list"
  bins :: nat

record ExposureAnalysis =
  clippedShadows :: jsnum
  clippedHighlights :: jsnum
  optimalExposure :: bool
  recommendedAdjustment :: string

record ContrastBrightnessAnalysis =
  cba_contrast :: ContrastMetrics
  cba_brightness :: BrightnessMetrics
  cba_histogram :: HistogramData
  dynamicRange :: jsnum
  exposureAnalysis :: ExposureAnalysis

subsection \<open>Classification (ai-classification.ts)\<close>

text \<open>
  Of \<open>ImageFeatures\<close> the model keeps the scores that decide the quality class and the
  confidences; \<open>colorHarmony\<close> and \<open>visualComplexity\<close>, the recommendation list and the
  technical-use assessment feed none of the results studied here and are left out.
\<close>

datatype QualityClass = Excellent | GoodClass | FairClass | PoorClass | VeryPoor

record ImageFeatures =
  aestheticScore :: jsnum
  technicalScore :: jsnum
  compositionScore :: jsnum
  professionalGrade :: bool

record AIClassificationResult =
  qualityClass :: QualityClass
  ai_confidence :: jsnum
  features :: ImageFeatures

subsection \<open>Analysis result (image-analysis.ts)\<close>

datatype IssueType = BlurIssue | ContrastIssue | BrightnessIssue | NoiseIssue | CompressionIssue

datatype Severity = Low | Medium | High

text \<open>
  A \<open>QualityIssue\<close>. Its \<open>description\<close>, a message assembled from the blur type, the
  number of regions and rounded percentages of the same inputs, is not modelled.
\<close>

record QualityIssue =
  issue_type :: IssueType
  severity :: Severity
  score :: jsnum

record ImageMetrics =
  sharpness :: jsnum
  contrast :: jsnum
  brightness :: jsnum
  saturation :: jsnum
  noise :: jsnum

datatype Quality = Good | Fair | Poor

record ImageAnalysisResult =
  overallQuality :: Quality
  confidence :: jsnum
  issues :: "QualityIssue list"
  metrics :: ImageMetrics
  blurAnalysis :: BlurAnalysis
  contrastBrightnessAnalysis :: ContrastBrightnessAnalysis
  aiClassification :: AIClassificationResult

section \<open>Loops over pixel positions\<close>

text \<open>
  The indices visited by \<open>for (let i = start; i < limit; i += step)\<close>. The limit is an
  integer since the code computes it by a subtraction that can go below zero
  (\<open>height - blockSize\<close>). Every loop of the code has a positive constant step; the test
  \<open>0 < step\<close> only makes the definition total.
\<close>

function indicesFrom :: "nat \<Rightarrow> nat \<Rightarrow> int \<Rightarrow> nat list" where
  "indicesFrom step i limit =
     (if 0 < step \<and> int i < limit then i # indicesFrom step (i + step) limit else [])"
  by pat_completeness auto
termination
  by (relation "measure (\<lambda>(step, i, limit). nat (limit - int i))") auto

declare indicesFrom.simps [simp del]

text \<open>
  The positions \<open>(x, y)\<close> visited by the pair of loops
  \<open>for (y = 1; y < height - 1; y++) for (x = 1; x < width - 1; x++)\<close>, in order.
\<close>

definition interior :: "nat \<Rightarrow> nat \<Rightarrow> (nat \<times> nat) list" where
  "interior w h =
     concat (map (\<lambda>y. map (\<lambda>x. (x, y)) (indicesFrom 1 1 (int w - 1))) (indicesFrom 1 1 (int h - 1)))"

text \<open>The index of the first byte of pixel \<open>(x, y)\<close>: \<open>(y * width + x) * 4\<close>.\<close>

definition pixelIndex :: "nat \<Rightarrow> nat \<Rightarrow> nat \<Rightarrow> nat" where
  "pixelIndex w x y = (y * w + x) * 4"

section \<open>Blur detection (blur-detection.ts)\<close>

text \<open>The luminance of pixel \<open>(x, y)\<close>, read as the code reads it.\<close>

definition grayAt :: "ImageData \<Rightarrow> nat \<Rightarrow> nat \<Rightarrow> jsnum" where
  "grayAt img x y = gray (data img) (pixelIndex (width img) x y)"

text \<open>
  The kernel loops \<open>for (ky = -1; ky <= 1; ky++) for (kx = -1; kx <= 1; kx++)\<close>: the
  response of a 3 by 3 kernel at \<open>(x, y)\<close> is the sum of
  \<open>gray * kern[(ky + 1) * 3 + (kx + 1)]\<close> over the nine neighbours. The loops that call
  it have \<open>1 \<le> x\<close> and \<open>1 \<le> y\<close>, so the coordinates never go below zero.
\<close>

definition offsets3 :: "(int \<times> int) list" where
  "offsets3 = concat (map (\<lambda>ky. map (\<lambda>kx. (kx, ky)) [-1, 0, 1]) [-1, 0, 1])"

definition applyKernel :: "real list \<Rightarrow> ImageData \<Rightarrow> nat \<Rightarrow> nat \<Rightarrow> jsnum" where
  "applyKernel kern img x y =
     foldl (\<lambda>sum (kx, ky).
              jadd sum (jmul (grayAt img (nat (int x + kx)) (nat (int y + ky)))
                             (Fin (kern ! nat ((ky + 1) * 3 + (kx + 1))))))
       (Fin 0) offsets3"

definition laplacianKernel :: "real list" where
  "laplacianKernel = [0, -1, 0, -1, 4, -1, 0, -1, 0]"

definition sobelX :: "real list" where
  "sobelX = [-1, 0, 1, -2, 0, 2, -1, 0, 1]"

definition sobelY :: "real list" where
  "sobelY = [-1, -2, -1, 0, 0, 0, 1, 2, 1]"

text \<open>
  \<open>calculateLaplacianVariance\<close>: two passes over the interior pixels, the first for the
  mean of the absolute Laplacian response, the second for its variance. Both divisions
  are by the number of interior pixels, which is 0 when a dimension is below 3.
\<close>

definition calculateLaplacianVariance :: "ImageData \<Rightarrow> jsnum" where
  "calculateLaplacianVariance img =
    (let pts = interior (width img) (height img);
         meanSum = foldl (\<lambda>mean (x, y). jadd mean (jabs (applyKernel laplacianKernel img x y)))
                     (Fin 0) pts;
         count = length pts;
         mean = jdiv meanSum (Fin (real count));
         variance = foldl (\<lambda>v (x, y).
                             jadd v (jpow2 (jsub (jabs (applyKernel laplacianKernel img x y)) mean)))
                      (Fin 0) pts
     in jdiv variance (Fin (real count)))"

definition calculateSobelVariance :: "ImageData \<Rightarrow> jsnum" where
  "calculateSobelVariance img =
    (let pts = interior (width img) (height img);
         totalMagnitude =
           foldl (\<lambda>total (x, y).
                    let gx = applyKernel sobelX img x y; gy = applyKernel sobelY img x y
                    in jadd total (jsqrt (jadd (jmul gx gx) (jmul gy gy))))
             (Fin 0) pts;
         count = length pts
     in jdiv totalMagnitude (Fin (real count)))"

text \<open>The gradient magnitude used by \<open>calculateFFTSharpness\<close> at \<open>(x, y)\<close>.\<close>

definition gradMagnitude :: "ImageData \<Rightarrow> nat \<Rightarrow> nat \<Rightarrow> jsnum" where
  "gradMagnitude img x y =
    (let g = grayAt img x y;
         rightGray = grayAt img (x + 1) y;
         bottomGray = grayAt img x (y + 1);
         gradX = jabs (jsub rightGray g);
         gradY = jabs (jsub bottomGray g)
     in jsqrt (jadd (jmul gradX gradX) (jmul gradY gradY)))"

definition calculateFFTSharpness :: "ImageData \<Rightarrow> jsnum" where
  "calculateFFTSharpness img =
    (let (highFreqEnergy, totalEnergy) =
           foldl (\<lambda>(high, total) (x, y).
                    let m = gradMagnitude img x y
                    in (if jgt m (Fin 10) then jadd high m else high, jadd total m))
             (Fin 0, Fin 0) (interior (width img) (height img))
     in if jgt totalEnergy (Fin 0) then jdiv highFreqEnergy totalEnergy else Fin 0)"

definition combineBlurScores :: "jsnum \<Rightarrow> jsnum \<Rightarrow> jsnum \<Rightarrow> jsnum" where
  "combineBlurScores laplacian sobel fft =
    (let normalizedLaplacian = jmin (jdiv laplacian (Fin 1000)) (Fin 1);
         normalizedSobel = jmin (jdiv sobel (Fin 100)) (Fin 1);
         normalizedFFT = jmin fft (Fin 1)
     in jadd (jadd (jmul normalizedLaplacian (Fin 0.4)) (jmul normalizedSobel (Fin 0.4)))
             (jmul normalizedFFT (Fin 0.2)))"

datatype Direction = Horizontal | Vertical | Diagonal

definition calculateDirectionalBlur :: "ImageData \<Rightarrow> Direction \<Rightarrow> jsnum" where
  "calculateDirectionalBlur img direction =
    (let (sx, sy) = (case direction of Horizontal \<Rightarrow> (1, 0) | Vertical \<Rightarrow> (0, 1) | Diagonal \<Rightarrow> (1, 1));
         (totalVariance, count) =
           foldl (\<lambda>(total, count) (x, y).
                    if x + sx < width img \<and> y + sy < height img
                    then (jadd total (jabs (jsub (grayAt img (x + sx) (y + sy)) (grayAt img x y))),
                          count + 1)
                    else (total, count))
             (Fin 0, 0::nat) (interior (width img) (height img))
     in if 0 < count then jdiv totalVariance (Fin (real count)) else Fin 0)"

definition detectBlurType :: "ImageData \<Rightarrow> jsnum \<Rightarrow> BlurType" where
  "detectBlurType img overallScore =
    (if jgt overallScore (Fin 0.7) then NoBlur
     else
       (let horizontalBlur = calculateDirectionalBlur img Horizontal;
            verticalBlur = calculateDirectionalBlur img Vertical;
            diagonalBlur = calculateDirectionalBlur img Diagonal;
            maxDirectional = jmax (jmax horizontalBlur verticalBlur) diagonalBlur;
            avgDirectional = jdiv (jadd (jadd horizontalBlur verticalBlur) diagonalBlur) (Fin 3)
        in if jgt maxDirectional (jmul avgDirectional (Fin 1.5)) then Motion
           else if jlt overallScore (Fin 0.3) then Focus
           else Gaussian))"

text \<open>
  \<open>extractBlock\<close> copies a block into a fresh \<open>Uint8ClampedArray\<close> (zero-filled) of
  \<open>blockWidth * blockHeight * 4\<close> bytes. A source read outside the buffer is
  \<open>undefined\<close>, which the clamped array stores as 0.
\<close>

definition sourceByte :: "8 word list \<Rightarrow> nat \<Rightarrow> 8 word" where
  "sourceByte d i = (if i < length d then d ! i else 0)"

definition extractBlock :: "ImageData \<Rightarrow> nat \<Rightarrow> nat \<Rightarrow> nat \<Rightarrow> nat \<Rightarrow> ImageData" where
  "extractBlock img startX startY blockWidth blockHeight =
    (let positions = concat (map (\<lambda>y. map (\<lambda>x. (x, y)) (indicesFrom 1 0 (int blockWidth)))
                                 (indicesFrom 1 0 (int blockHeight)));
         blockData =
           foldl (\<lambda>blk (x, y).
                    let sourceIdx = ((startY + y) * width img + (startX + x)) * 4;
                        targetIdx = (y * blockWidth + x) * 4
                    in blk[targetIdx := sourceByte (data img) sourceIdx,
                           targetIdx + 1 := sourceByte (data img) (sourceIdx + 1),
                           targetIdx + 2 := sourceByte (data img) (sourceIdx + 2),
                           targetIdx + 3 := sourceByte (data img) (sourceIdx + 3)])
             (replicate (blockWidth * blockHeight * 4) 0) positions
     in \<lparr>width = blockWidth, height = blockHeight, data = blockData\<rparr>)"

definition blockSize :: nat where
  "blockSize = 32"

text \<open>
  \<open>detectBlurRegions\<close>: the block origins are the multiples of 32 strictly below
  \<open>height - 32\<close> and \<open>width - 32\<close>, rows first; a block is reported when the Laplacian
  variance of its copy is below 500.
\<close>

definition detectBlurRegions :: "ImageData \<Rightarrow> nat \<Rightarrow> nat \<Rightarrow> BlurRegion list" where
  "detectBlurRegions img w h =
     concat (map (\<lambda>y. concat (map (\<lambda>x.
         (let blockData = extractBlock img x y blockSize blockSize;
              blockBlurScore = calculateLaplacianVariance blockData
          in if jlt blockBlurScore (Fin 500)
             then [\<lparr>region_x = x, region_y = y, region_width = blockSize, region_height = blockSize,
                    blurScore = jsub (Fin 1) (jmin (jdiv blockBlurScore (Fin 1000)) (Fin 1)),
                    region_type = (if jlt blockBlurScore (Fin 200) then Focus else Motion)\<rparr>]
             else []))
        (indicesFrom blockSize 0 (int w - int blockSize))))
      (indicesFrom blockSize 0 (int h - int blockSize)))"

definition calculateBlurConfidence :: "jsnum \<Rightarrow> BlurRegion list \<Rightarrow> jsnum" where
  "calculateBlurConfidence overallScore regions =
    (let c0 = Fin 0.8;
         c1 = (if 0 < length regions
               then (let avgRegionScore =
                           jdiv (foldl (\<lambda>sum region. jadd sum (blurScore region)) (Fin 0) regions)
                                (Fin (real (length regions)));
                         scoreConsistency = jsub (Fin 1) (jabs (jsub overallScore avgRegionScore))
                     in jmul c0 scoreConsistency)
               else c0);
         c2 = (if jlt overallScore (Fin 0.2) \<or> jgt overallScore (Fin 0.8) then jadd c1 (Fin 0.1) else c1)
     in jmax (Fin 0.3) (jmin (Fin 0.95) c2))"

definition analyzeBlur :: "ImageData \<Rightarrow> BlurAnalysis" where
  "analyzeBlur img =
    (let laplacianScore = calculateLaplacianVariance img;
         sobelScore = calculateSobelVariance img;
         fftScore = calculateFFTSharpness img;
         overall = combineBlurScores laplacianScore sobelScore fftScore;
         btype = detectBlurType img overall;
         regions = detectBlurRegions img (width img) (height img);
         conf = calculateBlurConfidence overall regions
     in \<lparr>overallBlurScore = overall, blurType = btype, blurRegions = regions,
         blur_confidence = conf\<rparr>)"

section \<open>Contrast and brightness analysis (contrast-brightness-analysis.ts)\<close>

text \<open>
  A byte read used as an array index: \<open>None\<close> stands for \<open>undefined\<close>, with which
  \<open>red[r]++\<close> changes no bin.
\<close>

definition rawByte :: "8 word list \<Rightarrow> nat \<Rightarrow> nat option" where
  "rawByte d i = (if i < length d then Some (unat (d ! i)) else None)"

text \<open>
  \<open>hist[i]++\<close> on a bin array. Bytes and the rounded luminance of three bytes are below
  256 (lemmas \<open>rawByte_less\<close> and \<open>lumIndex_less\<close>), so the index is always a bin.
\<close>

definition bump :: "nat list \<Rightarrow> nat \<Rightarrow> nat list" where
  "bump h i = h[i := h ! i + 1]"

definition bumpOpt :: "nat list \<Rightarrow> nat option \<Rightarrow> nat list" where
  "bumpOpt h v = (case v of Some i \<Rightarrow> bump h i | None \<Rightarrow> h)"

text \<open>\<open>Math.round(0.299 * r + 0.587 * g + 0.114 * b)\<close>; \<open>Math.round\<close> rounds halves up.\<close>

definition lumIndex :: "nat \<Rightarrow> nat \<Rightarrow> nat \<Rightarrow> nat" where
  "lumIndex r g b = nat \<lfloor>0.299 * real r + 0.587 * real g + 0.114 * real b + 1 / 2\<rfloor>"

definition HISTOGRAM_BINS :: nat where
  "HISTOGRAM_BINS = 256"

definition histStep :: "8 word list \<Rightarrow> HistogramData \<Rightarrow> nat \<Rightarrow> HistogramData" where
  "histStep d h i =
    (let r = rawByte d i; g = rawByte d (i + 1); b = rawByte d (i + 2)
     in \<lparr>red = bumpOpt (red h) r,
         green = bumpOpt (green h) g,
         blue = bumpOpt (blue h) b,
         luminance =
           (case (r, g, b) of
              (Some rv, Some gv, Some bv) \<Rightarrow> bump (luminance h) (lumIndex rv gv bv)
            | _ \<Rightarrow> luminance h),
         bins = bins h\<rparr>)"

definition calculateHistogram :: "ImageData \<Rightarrow> HistogramData" where
  "calculateHistogram img =
     foldl (histStep (data img))
       \<lparr>red = replicate HISTOGRAM_BINS 0, green = replicate HISTOGRAM_BINS 0,
        blue = replicate HISTOGRAM_BINS 0, luminance = replicate HISTOGRAM_BINS 0,
        bins = HISTOGRAM_BINS\<rparr>
       (indicesFrom 4 0 (int (length (data img))))"

definition findMinNonZero :: "nat list \<Rightarrow> nat" where
  "findMinNonZero hist =
     (case find (\<lambda>i. 0 < hist ! i) [0..<length hist] of Some i \<Rightarrow> i | None \<Rightarrow> 0)"

definition findMaxNonZero :: "nat list \<Rightarrow> nat" where
  "findMaxNonZero hist =
     (case find (\<lambda>i. 0 < hist ! i) (rev [0..<length hist]) of Some i \<Rightarrow> i | None \<Rightarrow> 255)"

text \<open>\<open>hist.reduce((sum, count) => sum + count, 0)\<close>.\<close>

definition totalCount :: "nat list \<Rightarrow> nat" where
  "totalCount hist = foldl (\<lambda>sum count. sum + count) 0 hist"

fun medianLoop :: "nat list \<Rightarrow> real \<Rightarrow> nat \<Rightarrow> nat list \<Rightarrow> nat" where
  "medianLoop hist target cumulative [] = 128"
| "medianLoop hist target cumulative (i # is) =
     (let cumulative' = cumulative + hist ! i
      in if target \<le> real cumulative' then i else medianLoop hist target cumulative' is)"

definition calculateMedianFromHistogram :: "nat list \<Rightarrow> nat" where
  "calculateMedianFromHistogram hist =
     medianLoop hist (real (totalCount hist) / 2) 0 [0..<length hist]"

text \<open>
  The percentile loop of \<open>calculateContrastRatio\<close>: the state is \<open>(cumulative, p10, p90)\<close>,
  and the loop stops (\<open>break\<close>) at the first bin where the cumulative count reaches the
  90th-percentile target.
\<close>

fun percentileLoop :: "nat list \<Rightarrow> real \<Rightarrow> real \<Rightarrow> nat \<Rightarrow> nat \<Rightarrow> nat \<Rightarrow> nat list \<Rightarrow> nat \<times> nat" where
  "percentileLoop hist p10Target p90Target cumulative p10 p90 [] = (p10, p90)"
| "percentileLoop hist p10Target p90Target cumulative p10 p90 (i # is) =
     (let cumulative' = cumulative + hist ! i;
          p10' = (if p10Target \<le> real cumulative' \<and> p10 = 0 then i else p10)
      in if p90Target \<le> real cumulative' then (p10', i)
         else percentileLoop hist p10Target p90Target cumulative' p10' p90 is)"

definition calculateContrastRatio :: "HistogramData \<Rightarrow> jsnum" where
  "calculateContrastRatio histogram =
    (let totalPixels = totalCount (luminance histogram);
         p10Target = real totalPixels * 0.1;
         p90Target = real totalPixels * 0.9;
         (p10, p90) = percentileLoop (luminance histogram) p10Target p90Target 0 0 255
                        [0..<length (luminance histogram)]
     in if 0 < p10 then jdiv (Fin (real p90)) (Fin (real p10)) else Fin 1)"

text \<open>
  The window of \<open>calculateLocalContrast\<close>: offsets \<open>-5 .. 5\<close> around the centre, the
  running minimum and maximum starting at 255 and 0.
\<close>

definition windowOffsets :: "(int \<times> int) list" where
  "windowOffsets = concat (map (\<lambda>wy. map (\<lambda>wx. (wx, wy)) [-5..5]) [-5..5])"

definition windowMinMax :: "ImageData \<Rightarrow> nat \<Rightarrow> nat \<Rightarrow> jsnum \<times> jsnum" where
  "windowMinMax img x y =
     foldl (\<lambda>(mn, mx) (wx, wy).
              let lum = gray (data img) (pixelIndex (width img) (nat (int x + wx)) (nat (int y + wy)))
              in (jmin mn lum, jmax mx lum))
       (Fin 255, Fin 0) windowOffsets"

definition calculateLocalContrast :: "ImageData \<Rightarrow> jsnum" where
  "calculateLocalContrast img =
    (let windowSize = 5;
         centres = concat (map (\<lambda>y. map (\<lambda>x. (x, y))
                       (indicesFrom windowSize windowSize (int (width img) - int windowSize)))
                     (indicesFrom windowSize windowSize (int (height img) - int windowSize)));
         (totalLocalContrast, windowCount) =
           foldl (\<lambda>(total, count) (x, y).
                    let (mn, mx) = windowMinMax img x y
                    in if jgt (jadd mx mn) (Fin 0)
                       then (jadd total (jdiv (jsub mx mn) (jadd mx mn)), count + 1)
                       else (total, count))
             (Fin 0, 0::nat) centres
     in if 0 < windowCount then jdiv totalLocalContrast (Fin (real windowCount)) else Fin 0)"

definition calculateContrastMetrics :: "ImageData \<Rightarrow> HistogramData \<Rightarrow> ContrastMetrics" where
  "calculateContrastMetrics img histogram =
    (let lum = luminance histogram;
         meanSum = foldl (\<lambda>s i. s + i * lum ! i) 0 [0..<length lum];
         totalPixels = foldl (\<lambda>s i. s + lum ! i) 0 [0..<length lum];
         mean = jdiv (Fin (real meanSum)) (Fin (real totalPixels));
         variance = foldl (\<lambda>v i. jadd v (jmul (Fin (real (lum ! i))) (jpow2 (jsub (Fin (real i)) mean))))
                      (Fin 0) [0..<length lum];
         globalContrast = jdiv (jsqrt (jdiv variance (Fin (real totalPixels)))) (Fin 255);
         localContrast = calculateLocalContrast img;
         maxLum = findMaxNonZero lum;
         minLum = findMinNonZero lum;
         michelsonContrast = jdiv (jsub (Fin (real maxLum)) (Fin (real minLum)))
                                  (jadd (Fin (real maxLum)) (Fin (real minLum)));
         rmsSum = foldl (\<lambda>v i. jadd v (jmul (Fin (real (lum ! i))) (jpow2 (jsub (Fin (real i)) mean))))
                    (Fin 0) [0..<length lum];
         rmsContrast = jdiv (jsqrt (jdiv rmsSum (Fin (real totalPixels)))) (Fin 255)
     in \<lparr>globalContrast = globalContrast, localContrast = localContrast,
         michelsonContrast = michelsonContrast, rmsContrast = rmsContrast,
         contrastRatio = calculateContrastRatio histogram\<rparr>)"

definition calculateBrightnessMetrics :: "ImageData \<Rightarrow> HistogramData \<Rightarrow> BrightnessMetrics" where
  "calculateBrightnessMetrics img histogram =
    (let lum = luminance histogram;
         totalPixels = width img * height img;
         weightedSum = foldl (\<lambda>s i. s + i * lum ! i) 0 [0..<length lum];
         averageBrightness = jdiv (jdiv (Fin (real weightedSum)) (Fin (real totalPixels))) (Fin 255);
         medianBrightness = jdiv (Fin (real (calculateMedianFromHistogram lum))) (Fin 255);
         (shadows, midtones, highlights) =
            foldl (\<lambda>(s, m, h) i.
                     if i \<le> 85 then (s + lum ! i, m, h)
                     else if i \<le> 170 then (s, m + lum ! i, h)
                     else (s, m, h + lum ! i))
              (0, 0, 0) [0..<length lum];
         exposureLevel =
           (if jlt averageBrightness (Fin 0.3) then Underexposed
            else if jgt averageBrightness (Fin 0.7) then Overexposed
            else Optimal)
     in \<lparr>averageBrightness = averageBrightness, medianBrightness = medianBrightness,
         brightnessDistribution =
           \<lparr>shadows = jdiv (Fin (real shadows)) (Fin (real totalPixels)),
            midtones = jdiv (Fin (real midtones)) (Fin (real totalPixels)),
            highlights = jdiv (Fin (real highlights)) (Fin (real totalPixels))\<rparr>,
         exposureLevel = exposureLevel\<rparr>)"

definition calculateDynamicRange :: "HistogramData \<Rightarrow> jsnum" where
  "calculateDynamicRange histogram =
    (let minLum = findMinNonZero (luminance histogram);
         maxLum = findMaxNonZero (luminance histogram)
     in jdiv (jsub (Fin (real maxLum)) (Fin (real minLum))) (Fin 255))"

text \<open>
  A bin read with a literal index, as in the two clipping loops of \<open>analyzeExposure\<close>:
  outside the array the read is \<open>undefined\<close> and the sum becomes \<open>NaN\<close>.
\<close>

definition countAt :: "nat list \<Rightarrow> nat \<Rightarrow> jsnum" where
  "countAt hist i = (if i < length hist then Fin (real (hist ! i)) else NaN)"

definition analyzeExposure :: "HistogramData \<Rightarrow> BrightnessMetrics \<Rightarrow> ExposureAnalysis" where
  "analyzeExposure histogram brightnessM =
    (let totalPixels = totalCount (luminance histogram);
         clippedShadowsCount = foldl (\<lambda>s i. jadd s (countAt (luminance histogram) i)) (Fin 0) [0..<11];
         clippedHighlightsCount = foldl (\<lambda>s i. jadd s (countAt (luminance histogram) i)) (Fin 0) [245..<256];
         clippedShadowsPercent = jdiv clippedShadowsCount (Fin (real totalPixels));
         clippedHighlightsPercent = jdiv clippedHighlightsCount (Fin (real totalPixels));
         optimal = (jlt clippedShadowsPercent (Fin 0.02) \<and> jlt clippedHighlightsPercent (Fin 0.02));
         adjustment =
           (if exposureLevel brightnessM = Underexposed then ''Increase exposure by +0.5 to +1.5 stops''
            else if exposureLevel brightnessM = Overexposed then ''Decrease exposure by -0.5 to -1.5 stops''
            else if jgt clippedShadowsPercent (Fin 0.05) then ''Lift shadows to recover detail''
            else if jgt clippedHighlightsPercent (Fin 0.05) then ''Lower highlights to recover detail''
            else ''No adjustment needed'')
     in \<lparr>clippedShadows = clippedShadowsPercent, clippedHighlights = clippedHighlightsPercent,
         optimalExposure = optimal, recommendedAdjustment = adjustment\<rparr>)"

definition analyzeContrastBrightness :: "ImageData \<Rightarrow> ContrastBrightnessAnalysis" where
  "analyzeContrastBrightness img =
    (let histogram = calculateHistogram img;
         contrastM = calculateContrastMetrics img histogram;
         brightnessM = calculateBrightnessMetrics img histogram;
         dynRange = calculateDynamicRange histogram;
         exposure = analyzeExposure histogram brightnessM
     in \<lparr>cba_contrast = contrastM, cba_brightness = brightnessM, cba_histogram = histogram,
         dynamicRange = dynRange, exposureAnalysis = exposure\<rparr>)"

section \<open>Issue detection and quality verdict (image-analysis.ts)\<close>

definition detectIssues ::
  "ImageMetrics \<Rightarrow> BlurAnalysis option \<Rightarrow> ContrastBrightnessAnalysis option \<Rightarrow> QualityIssue list"
where
  "detectIssues m blurA cbA =
    (let issues0 = [];
         issues1 =
           (case blurA of
              Some b \<Rightarrow>
                if jlt (overallBlurScore b) (Fin 0.5)
                then issues0 @
                  [\<lparr>issue_type = BlurIssue,
                    severity = (if jlt (overallBlurScore b) (Fin 0.2) then High
                                else if jlt (overallBlurScore b) (Fin 0.35) then Medium else Low),
                    score = jsub (Fin 1) (overallBlurScore b)\<rparr>]
                else issues0
            | None \<Rightarrow> issues0);
         issues2 =
           (case cbA of
              Some c \<Rightarrow>
                (let avgContrast =
                       jdiv (jadd (globalContrast (cba_contrast c)) (localContrast (cba_contrast c))) (Fin 2);
                     issues1a =
                       (if jlt avgContrast (Fin 0.3)
                        then issues1 @
                          [\<lparr>issue_type = ContrastIssue,
                            severity = (if jlt avgContrast (Fin 0.1) then High
                                        else if jlt avgContrast (Fin 0.2) then Medium else Low),
                            score = jsub (Fin 1) avgContrast\<rparr>]
                        else issues1)
                 in if exposureLevel (cba_brightness c) \<noteq> Optimal
                    then issues1a @
                      [\<lparr>issue_type = BrightnessIssue,
                        severity = (if jgt (clippedShadows (exposureAnalysis c)) (Fin 0.1) \<or>
                                       jgt (clippedHighlights (exposureAnalysis c)) (Fin 0.1)
                                    then High else Medium),
                        score = (if exposureLevel (cba_brightness c) = Underexposed
                                 then jsub (Fin 1) (jmul (averageBrightness (cba_brightness c)) (Fin 2))
                                 else jmul (jsub (averageBrightness (cba_brightness c)) (Fin 0.5)) (Fin 2))\<rparr>]
                    else issues1a)
            | None \<Rightarrow>
                (let issues1a =
                       (if jlt (contrast m) (Fin 0.3)
                        then issues1 @
                          [\<lparr>issue_type = ContrastIssue,
                            severity = (if jlt (contrast m) (Fin 0.1) then High
                                        else if jlt (contrast m) (Fin 0.2) then Medium else Low),
                            score = jsub (Fin 1) (contrast m)\<rparr>]
                        else issues1)
                 in if jlt (brightness m) (Fin 0.2) \<or> jgt (brightness m) (Fin 0.8)
                    then issues1a @
                      [\<lparr>issue_type = BrightnessIssue,
                        severity = (if jlt (brightness m) (Fin 0.1) \<or> jgt (brightness m) (Fin 0.9) then High
                                    else if jlt (brightness m) (Fin 0.15) \<or> jgt (brightness m) (Fin 0.85)
                                    then Medium else Low),
                        score = (if jlt (brightness m) (Fin 0.2)
                                 then jsub (Fin 1) (jmul (brightness m) (Fin 5))
                                 else jmul (jsub (brightness m) (Fin 0.8)) (Fin 5))\<rparr>]
                    else issues1a))
     in if jgt (noise m) (Fin 0.4)
        then issues2 @
          [\<lparr>issue_type = NoiseIssue,
            severity = (if jgt (noise m) (Fin 0.7) then High
                        else if jgt (noise m) (Fin 0.55) then Medium else Low),
            score = noise m\<rparr>]
        else issues2)"

text \<open>
  \<open>determineOverallQuality\<close>: the \<open>switch\<close> over the five quality classes returns in
  every case, so the issue-counting fallback runs only without a classification.
\<close>

definition determineOverallQuality ::
  "ImageMetrics \<Rightarrow> QualityIssue list \<Rightarrow> AIClassificationResult option \<Rightarrow> Quality"
where
  "determineOverallQuality m iss ai =
    (case ai of
       Some a \<Rightarrow>
         (case qualityClass a of
            Excellent \<Rightarrow> Good
          | GoodClass \<Rightarrow> Good
          | FairClass \<Rightarrow> Fair
          | PoorClass \<Rightarrow> Poor
          | VeryPoor \<Rightarrow> Poor)
     | None \<Rightarrow>
         (let highSeverityIssues = length (filter (\<lambda>issue. severity issue = High) iss);
              mediumSeverityIssues = length (filter (\<lambda>issue. severity issue = Medium) iss)
          in if highSeverityIssues > 0 \<or> mediumSeverityIssues > 2 then Poor
             else if mediumSeverityIssues > 0 \<or> length iss > 2 then Fair
             else Good))"

definition calculateConfidence ::
  "ImageMetrics \<Rightarrow> QualityIssue list \<Rightarrow> AIClassificationResult option \<Rightarrow> jsnum"
where
  "calculateConfidence m iss ai =
    (let c0 = Fin 0.8;
         c1 = (case ai of
                 Some a \<Rightarrow> if truthy (ai_confidence a) then jdiv (jadd c0 (ai_confidence a)) (Fin 2) else c0
               | None \<Rightarrow> c0);
         c2 = (if jlt (brightness m) (Fin 0.1) \<or> jgt (brightness m) (Fin 0.9) then jsub c1 (Fin 0.1) else c1);
         c3 = (if jlt (contrast m) (Fin 0.1) then jsub c2 (Fin 0.1) else c2);
         c4 = (if jlt (sharpness m) (Fin 0.05) then jsub c3 (Fin 0.1) else c3);
         c5 = (if length iss > 3 then jsub c4 (Fin 0.05) else c4)
     in jmax (Fin 0.3) (jmin (Fin 0.95) c5))"

section \<open>The verdict as the specification words it\<close>

text \<open>
  The quality verdict of section 4.5 of the specification, written from its words: a
  present classification decides alone; otherwise the verdict is \<open>Poor\<close> with at least
  one high-severity issue or more than two medium-severity issues, \<open>Fair\<close> with at least
  one medium-severity issue or more than two issues in total, and \<open>Good\<close> otherwise.
\<close>

definition spec_overallQuality :: "QualityIssue list \<Rightarrow> QualityClass option \<Rightarrow> Quality" where
  "spec_overallQuality iss cls =
    (case cls of
       Some q \<Rightarrow> (if q = Excellent \<or> q = GoodClass then Good else if q = FairClass then Fair else Poor)
     | None \<Rightarrow>
        (if High \<in> severity ` set iss \<or> 2 < count_list (map severity iss) Medium then Poor
         else if Medium \<in> severity ` set iss \<or> 2 < length iss then Fair
         else Good))"

section \<open>The heuristic classifier (ai-classification.ts)\<close>

text \<open>The fixed \<open>modelWeights\<close> table set up by the constructor.\<close>

record ModelWeight =
  weight :: real
  bias :: real

definition w_sharpness :: ModelWeight where "w_sharpness = \<lparr>weight = 0.25, bias = 0.1\<rparr>"
definition w_contrast :: ModelWeight where "w_contrast = \<lparr>weight = 0.2, bias = 0.05\<rparr>"
definition w_brightness :: ModelWeight where "w_brightness = \<lparr>weight = 0.15, bias = 0.0\<rparr>"
definition w_saturation :: ModelWeight where "w_saturation = \<lparr>weight = 0.1, bias = 0.0\<rparr>"
definition w_noise :: ModelWeight where "w_noise = \<lparr>weight = - 0.15, bias = 0.0\<rparr>"
definition w_composition :: ModelWeight where "w_composition = \<lparr>weight = 0.15, bias = 0.05\<rparr>"

definition calculateTechnicalScore ::
  "ImageMetrics \<Rightarrow> BlurAnalysis option \<Rightarrow> ContrastBrightnessAnalysis option \<Rightarrow> jsnum"
where
  "calculateTechnicalScore m blurA cbA =
    (let s0 = Fin 0;
         s1 = jadd s0 (jadd (jmul (sharpness m) (Fin (weight w_sharpness))) (Fin (bias w_sharpness)));
         s2 = jadd s1 (jadd (jmul (contrast m) (Fin (weight w_contrast))) (Fin (bias w_contrast)));
         brightnessOptimal = jsub (Fin 1) (jmul (jabs (jsub (brightness m) (Fin 0.5))) (Fin 2));
         s3 = jadd s2 (jadd (jmul brightnessOptimal (Fin (weight w_brightness))) (Fin (bias w_brightness)));
         s4 = jadd s3 (jadd (jmul (saturation m) (Fin (weight w_saturation))) (Fin (bias w_saturation)));
         s5 = jadd s4 (jadd (jmul (jsub (Fin 1) (noise m)) (jabs (Fin (weight w_noise)))) (Fin (bias w_noise)));
         s6 = (case blurA of
                 Some b \<Rightarrow> if jgt (overallBlurScore b) (Fin 0.7) then jadd s5 (Fin 0.1) else s5
               | None \<Rightarrow> s5);
         s7 = (case cbA of
                 Some c \<Rightarrow> if optimalExposure (exposureAnalysis c) then jadd s6 (Fin 0.1) else s6
               | None \<Rightarrow> s6)
     in jmax (Fin 0) (jmin (Fin 1) s7))"

text \<open>
  \<open>Math.random()\<close>: the successive results of the calls made during one analysis are a
  parameter \<open>rnd\<close> of the model (\<open>rnd k\<close> is the result of call number \<open>k\<close>), and every
  function that draws returns the number of calls made so far along with its value.
  The placeholder estimators ignore the image.
\<close>

type_synonym random = "nat \<Rightarrow> real"

definition analyzeRuleOfThirds :: "ImageData \<Rightarrow> random \<Rightarrow> nat \<Rightarrow> jsnum \<times> nat" where
  "analyzeRuleOfThirds img rnd k = (jadd (jmul (Fin (rnd k)) (Fin 0.3)) (Fin 0.2), Suc k)"

definition analyzeColorDistribution :: "ImageData \<Rightarrow> random \<Rightarrow> nat \<Rightarrow> jsnum \<times> nat" where
  "analyzeColorDistribution img rnd k = (jadd (jmul (Fin (rnd k)) (Fin 0.3)) (Fin 0.2), Suc k)"

definition analyzeEdgeDistribution :: "ImageData \<Rightarrow> random \<Rightarrow> nat \<Rightarrow> jsnum \<times> nat" where
  "analyzeEdgeDistribution img rnd k = (jadd (jmul (Fin (rnd k)) (Fin 0.3)) (Fin 0.2), Suc k)"

definition analyzeBalance :: "ImageData \<Rightarrow> random \<Rightarrow> nat \<Rightarrow> jsnum \<times> nat" where
  "analyzeBalance img rnd k = (jadd (jmul (Fin (rnd k)) (Fin 0.3)) (Fin 0.2), Suc k)"

definition analyzeSymmetry :: "ImageData \<Rightarrow> random \<Rightarrow> nat \<Rightarrow> jsnum \<times> nat" where
  "analyzeSymmetry img rnd k = (jadd (jmul (Fin (rnd k)) (Fin 0.5)) (Fin 0.25), Suc k)"

definition analyzeLeadingLines :: "ImageData \<Rightarrow> random \<Rightarrow> nat \<Rightarrow> jsnum \<times> nat" where
  "analyzeLeadingLines img rnd k = (jadd (jmul (Fin (rnd k)) (Fin 0.5)) (Fin 0.25), Suc k)"

definition analyzeDepth :: "ImageData \<Rightarrow> random \<Rightarrow> nat \<Rightarrow> jsnum \<times> nat" where
  "analyzeDepth img rnd k = (jadd (jmul (Fin (rnd k)) (Fin 0.5)) (Fin 0.25), Suc k)"

definition calculateAestheticScore :: "ImageData \<Rightarrow> random \<Rightarrow> nat \<Rightarrow> jsnum \<times> nat" where
  "calculateAestheticScore img rnd k =
    (let s0 = Fin 0.5;
         (ruleOfThirdsScore, k1) = analyzeRuleOfThirds img rnd k;
         s1 = jadd s0 (jmul ruleOfThirdsScore (Fin 0.3));
         (colorDistributionScore, k2) = analyzeColorDistribution img rnd k1;
         s2 = jadd s1 (jmul colorDistributionScore (Fin 0.2));
         (edgeDistributionScore, k3) = analyzeEdgeDistribution img rnd k2;
         s3 = jadd s2 (jmul edgeDistributionScore (Fin 0.2));
         (balanceScore, k4) = analyzeBalance img rnd k3;
         s4 = jadd s3 (jmul balanceScore (Fin 0.3))
     in (jmax (Fin 0) (jmin (Fin 1) s4), k4))"

definition calculateCompositionScore :: "ImageData \<Rightarrow> random \<Rightarrow> nat \<Rightarrow> jsnum \<times> nat" where
  "calculateCompositionScore img rnd k =
    (let (symmetryScore, k1) = analyzeSymmetry img rnd k;
         (leadingLinesScore, k2) = analyzeLeadingLines img rnd k1;
         (depthScore, k3) = analyzeDepth img rnd k2
     in (jdiv (jadd (jadd symmetryScore leadingLinesScore) depthScore) (Fin 3), k3))"

text \<open>
  \<open>extractImageFeatures\<close> computes the aesthetic score first, then the technical score,
  then the composition score; the two features left out of the model are computed after
  these and draw once more.
\<close>

definition extractImageFeatures ::
  "ImageData \<Rightarrow> ImageMetrics \<Rightarrow> BlurAnalysis option \<Rightarrow> ContrastBrightnessAnalysis option \<Rightarrow>
   random \<Rightarrow> nat \<Rightarrow> ImageFeatures \<times> nat"
where
  "extractImageFeatures img m blurA cbA rnd k =
    (let (aesthetic, k1) = calculateAestheticScore img rnd k;
         technical = calculateTechnicalScore m blurA cbA;
         (composition, k2) = calculateCompositionScore img rnd k1
     in (\<lparr>aestheticScore = aesthetic, technicalScore = technical, compositionScore = composition,
          professionalGrade = (jgt technical (Fin 0.8) \<and> jgt aesthetic (Fin 0.7))\<rparr>, k2))"

definition overallScore :: "ImageFeatures \<Rightarrow> jsnum" where
  "overallScore f =
     jadd (jadd (jmul (technicalScore f) (Fin 0.4)) (jmul (aestheticScore f) (Fin 0.3)))
          (jmul (compositionScore f) (Fin 0.3))"

definition predictQualityClass :: "ImageFeatures \<Rightarrow> ImageMetrics \<Rightarrow> QualityClass" where
  "predictQualityClass f m =
    (if jge (overallScore f) (Fin 0.9) \<and> professionalGrade f then Excellent
     else if jge (overallScore f) (Fin 0.75) then GoodClass
     else if jge (overallScore f) (Fin 0.5) then FairClass
     else if jge (overallScore f) (Fin 0.25) then PoorClass
     else VeryPoor)"

definition calculateClassificationConfidence :: "ImageFeatures \<Rightarrow> ImageMetrics \<Rightarrow> jsnum" where
  "calculateClassificationConfidence f m =
    (let c0 = Fin 0.8;
         c1 = (if jgt (overallScore f) (Fin 0.8) \<or> jlt (overallScore f) (Fin 0.3)
               then jadd c0 (Fin 0.1) else c0);
         c2 = (if jgt (overallScore f) (Fin 0.45) \<and> jlt (overallScore f) (Fin 0.55)
               then jsub c1 (Fin 0.2) else c1)
     in jmax (Fin 0.3) (jmin (Fin 0.95) c2))"

definition classifyImage ::
  "ImageData \<Rightarrow> ImageMetrics \<Rightarrow> BlurAnalysis option \<Rightarrow> ContrastBrightnessAnalysis option \<Rightarrow>
   random \<Rightarrow> AIClassificationResult"
where
  "classifyImage img m blurA cbA rnd =
    (let (f, k) = extractImageFeatures img m blurA cbA rnd 0
     in \<lparr>qualityClass = predictQualityClass f m,
         ai_confidence = calculateClassificationConfidence f m,
         features = f\<rparr>)"

subsection \<open>The technical score as the specification words it\<close>

text \<open>
  The formula of section 4.4 of the specification for finite metrics; \<open>blurBonus\<close> and
  \<open>exposureBonus\<close> say whether the two bonuses apply.
\<close>

definition spec_technicalScore ::
  "real \<Rightarrow> real \<Rightarrow> real \<Rightarrow> real \<Rightarrow> real \<Rightarrow> bool \<Rightarrow> bool \<Rightarrow> real"
where
  "spec_technicalScore s c b sat n blurBonus exposureBonus =
     max 0 (min 1
       (0.25 * s + 0.1 + 0.2 * c + 0.05 + 0.15 * (1 - \<bar>b - 0.5\<bar> * 2) + 0.15 * sat + 0.15 * (1 - n)
        + (if blurBonus then 0.1 else 0) + (if exposureBonus then 0.1 else 0)))"

text \<open>Whether the two bonuses of the technical score apply, as the code tests them.\<close>

definition blurBonus :: "BlurAnalysis option \<Rightarrow> bool" where
  "blurBonus blurA = (case blurA of Some b \<Rightarrow> jgt (overallBlurScore b) (Fin 0.7) | None \<Rightarrow> False)"

definition exposureBonus :: "ContrastBrightnessAnalysis option \<Rightarrow> bool" where
  "exposureBonus cbA = (case cbA of Some c \<Rightarrow> optimalExposure (exposureAnalysis c) | None \<Rightarrow> False)"

section \<open>Basic metrics (image-analysis.ts)\<close>

definition calculateSharpness :: "ImageData \<Rightarrow> jsnum" where
  "calculateSharpness img =
     foldl (\<lambda>sharpness (x, y). jadd sharpness (jabs (applyKernel laplacianKernel img x y)))
       (Fin 0) (interior (width img) (height img))"

definition calculateContrast :: "ImageData \<Rightarrow> jsnum \<Rightarrow> jsnum" where
  "calculateContrast img avgBrightness =
    (let variance = foldl (\<lambda>v i. jadd v (jpow2 (jsub (gray (data img) i) avgBrightness)))
                      (Fin 0) (indicesFrom 4 0 (int (length (data img))))
     in jsqrt (jdiv variance (jdiv (Fin (real (length (data img)))) (Fin 4))))"

text \<open>The local variance around \<open>(x, y)\<close>: nine squared differences to the centre, divided by 9.\<close>

definition localVariance :: "ImageData \<Rightarrow> nat \<Rightarrow> nat \<Rightarrow> jsnum" where
  "localVariance img x y =
    (let centerGray = grayAt img x y;
         (lv, count) =
           foldl (\<lambda>(lv, count) (dx, dy).
                    (jadd lv (jpow2 (jsub (grayAt img (nat (int x + dx)) (nat (int y + dy))) centerGray)),
                     count + 1))
             (Fin 0, 0::nat) offsets3
     in jdiv lv (Fin (real count)))"

definition calculateNoise :: "ImageData \<Rightarrow> jsnum" where
  "calculateNoise img =
     foldl (\<lambda>noise (x, y). jadd noise (localVariance img x y))
       (Fin 0) (interior (width img) (height img))"

text \<open>The saturation of one pixel: \<open>max === 0 ? 0 : (max - min) / max\<close>.\<close>

definition pixelSaturation :: "8 word list \<Rightarrow> nat \<Rightarrow> jsnum" where
  "pixelSaturation d i =
    (let r = byteAt d i; g = byteAt d (i + 1); b = byteAt d (i + 2);
         mx = jmax (jmax r g) b;
         mn = jmin (jmin r g) b
     in if jeq mx (Fin 0) then Fin 0 else jdiv (jsub mx mn) mx)"

definition calculateMetrics :: "ImageData \<Rightarrow> ImageMetrics" where
  "calculateMetrics img =
    (let pixelCount = Fin (real (width img * height img));
         (totalBrightness, totalSaturation) =
           foldl (\<lambda>(tb, ts) i. (jadd tb (gray (data img) i), jadd ts (pixelSaturation (data img) i)))
             (Fin 0, Fin 0) (indicesFrom 4 0 (int (length (data img))));
         sharpnessSum = calculateSharpness img;
         totalContrast = calculateContrast img (jdiv totalBrightness pixelCount);
         noiseSum = calculateNoise img
     in \<lparr>sharpness = jmin (jdiv sharpnessSum pixelCount) (Fin 1),
         contrast = jmin (jdiv totalContrast (Fin 255)) (Fin 1),
         brightness = jdiv (jdiv totalBrightness pixelCount) (Fin 255),
         saturation = jdiv totalSaturation pixelCount,
         noise = jmin (jdiv noiseSum pixelCount) (Fin 1)\<rparr>)"

section \<open>The analysis pipeline (image-analysis.ts)\<close>

text \<open>
  \<open>analyzeImage\<close> from the point where the pixel buffer has been read off the canvas:
  the three engines run on the buffer, the classifier on their results, then the issue
  list, the verdict and the confidence. The blur and exposure results and the
  classification are always passed on, so the optional arguments are present.
\<close>

definition analyzeImage :: "ImageData \<Rightarrow> random \<Rightarrow> ImageAnalysisResult" where
  "analyzeImage img rnd =
    (let m = calculateMetrics img;
         blurA = analyzeBlur img;
         cbA = analyzeContrastBrightness img;
         ai = classifyImage img m (Some blurA) (Some cbA) rnd;
         iss = detectIssues m (Some blurA) (Some cbA);
         quality = determineOverallQuality m iss (Some ai);
         conf = calculateConfidence m iss (Some ai)
     in \<lparr>overallQuality = quality, confidence = conf, issues = iss, metrics = m,
         blurAnalysis = blurA, contrastBrightnessAnalysis = cbA, aiClassification = ai\<rparr>)"

section \<open>Auxiliary notions for the properties\<close>

text \<open>All four channel histograms have 256 bins.\<close>

definition histOk :: "HistogramData \<Rightarrow> bool" where
  "histOk h = (length (red h) = 256 \<and> length (green h) = 256 \<and> length (blue h) = 256 \<and>
               length (luminance h) = 256)"

text \<open>A buffer of two pixels, \<open>(10, 20, 30)\<close> and \<open>(200, 100, 50)\<close>, both opaque.\<close>

definition twoPixels :: ImageData where
  "twoPixels = \<lparr>width = 2, height = 1, data = [10, 20, 30, 255, 200, 100, 50, 255]\<rparr>"

text \<open>Every pixel of the buffer has the colour \<open>(r, g, b)\<close> (the alpha channel is free).\<close>

definition uniformColor :: "ImageData \<Rightarrow> 8 word \<Rightarrow> 8 word \<Rightarrow> 8 word \<Rightarrow> bool" where
  "uniformColor img r g b =
     list_all (\<lambda>p. data img ! (4 * p) = r \<and> data img ! (4 * p + 1) = g \<and> data img ! (4 * p + 2) = b)
       [0..<width img * height img]"

text \<open>A histogram with the single non-empty bin \<open>l\<close>, holding \<open>n\<close>.\<close>

definition spike :: "nat \<Rightarrow> nat \<Rightarrow> nat list" where
  "spike l n = (replicate 256 0)[l := n]"

text \<open>The buffer of \<open>w * h\<close> pixels that all are \<open>(r, g, b, a)\<close>.\<close>

definition uniformImage :: "nat \<Rightarrow> nat \<Rightarrow> 8 word \<Rightarrow> 8 word \<Rightarrow> 8 word \<Rightarrow> 8 word \<Rightarrow> ImageData" where
  "uniformImage w h r g b a = \<lparr>width = w, height = h, data = concat (replicate (w * h) [r, g, b, a])\<rparr>"

text \<open>The luminance of pixel \<open>(x, y)\<close> as a real number, for a position inside the buffer.\<close>

definition lumR :: "ImageData \<Rightarrow> nat \<Rightarrow> nat \<Rightarrow> real" where
  "lumR img x y =
     0.299 * real (unat (data img ! pixelIndex (width img) x y))
   + 0.587 * real (unat (data img ! (pixelIndex (width img) x y + 1)))
   + 0.114 * real (unat (data img ! (pixelIndex (width img) x y + 2)))"

text \<open>The buffer holds four bytes per pixel: \<open>data.length = 4 * width * height\<close>.\<close>

definition sized :: "ImageData \<Rightarrow> bool" where
  "sized img = (length (data img) = 4 * width img * height img)"

text \<open>The response of a 3 by 3 kernel at an interior position, as a real number.\<close>

definition convR :: "real list \<Rightarrow> ImageData \<Rightarrow> nat \<Rightarrow> nat \<Rightarrow> real" where
  "convR k img x y =
     lumR img (x - 1) (y - 1) * k ! 0 + lumR img x (y - 1) * k ! 1 + lumR img (x + 1) (y - 1) * k ! 2
   + lumR img (x - 1) y * k ! 3 + lumR img x y * k ! 4 + lumR img (x + 1) y * k ! 5
   + lumR img (x - 1) (y + 1) * k ! 6 + lumR img x (y + 1) * k ! 7 + lumR img (x + 1) (y + 1) * k ! 8"

text \<open>One pass of the body of the copy loops of \<open>extractBlock\<close>.\<close>

definition blockStep :: "ImageData \<Rightarrow> nat \<Rightarrow> nat \<Rightarrow> nat \<Rightarrow> 8 word list \<Rightarrow> nat \<times> nat \<Rightarrow> 8 word list" where
  "blockStep img startX startY blockWidth blk p =
     (case p of (x, y) \<Rightarrow>
        let sourceIdx = ((startY + y) * width img + (startX + x)) * 4;
            targetIdx = (y * blockWidth + x) * 4
        in blk[targetIdx := sourceByte (data img) sourceIdx,
               targetIdx + 1 := sourceByte (data img) (sourceIdx + 1),
               targetIdx + 2 := sourceByte (data img) (sourceIdx + 2),
               targetIdx + 3 := sourceByte (data img) (sourceIdx + 3)])"

text \<open>The positions the copy loops of \<open>extractBlock\<close> visit.\<close>

definition blockPositions :: "nat \<Rightarrow> nat \<Rightarrow> (nat \<times> nat) list" where
  "blockPositions bw bh = concat (map (\<lambda>y. map (\<lambda>x. (x, y)) [0..<bw]) [0..<bh])"

text \<open>The luminance of the colour \<open>(r, g, b)\<close>.\<close>

definition lumOf :: "8 word \<Rightarrow> 8 word \<Rightarrow> 8 word \<Rightarrow> real" where
  "lumOf r g b = 0.299 * real (unat r) + 0.587 * real (unat g) + 0.114 * real (unat b)"

text \<open>The region reported for a block at \<open>(x, y)\<close> whose Laplacian variance is 0.\<close>

definition blurredBlock :: "nat \<Rightarrow> nat \<Rightarrow> BlurRegion" where
  "blurredBlock x y =
     \<lparr>region_x = x, region_y = y, region_width = 32, region_height = 32,
      blurScore = Fin 1, region_type = Focus\<rparr>"

text \<open>The local variance around an interior position, as a real number.\<close>

definition localVarR :: "ImageData \<Rightarrow> nat \<Rightarrow> nat \<Rightarrow> real" where
  "localVarR img x y =
     (\<Sum>(dx, dy)\<leftarrow>offsets3.
        (lumR img (nat (int x + dx)) (nat (int y + dy)) - lumR img x y) *
        (lumR img (nat (int x + dx)) (nat (int y + dy)) - lumR img x y)) / 9"

text \<open>The luminance expression at byte index \<open>i\<close> as a real number, for an index inside the buffer.\<close>

definition grayR :: "8 word list \<Rightarrow> nat \<Rightarrow> real" where
  "grayR d i = 0.299 * real (unat (d ! i)) + 0.587 * real (unat (d ! (i + 1)))
             + 0.114 * real (unat (d ! (i + 2)))"

text \<open>The saturation of the pixel at byte index \<open>i\<close> as a real number.\<close>

definition satR :: "8 word list \<Rightarrow> nat \<Rightarrow> real" where
  "satR d i =
    (let r = real (unat (d ! i)); g = real (unat (d ! (i + 1))); b = real (unat (d ! (i + 2)));
         mx = max (max r g) b; mn = min (min r g) b
     in if mx = 0 then 0 else (mx - mn) / mx)"

text \<open>The 3 by 3 buffer of opaque black pixels.\<close>

definition black3 :: ImageData where
  "black3 = uniformImage 3 3 0 0 0 255"

text \<open>Two runs of the pseudo-random source: every call returns 0.3, or every call returns 0.9.\<close>

definition draws03 :: random where
  "draws03 k = 0.3"

definition draws09 :: random where
  "draws09 k = 0.9"

text \<open>A run that returns 0.3 for the first seven calls and 0.9 afterwards.\<close>

definition drawsLate :: random where
  "drawsLate k = (if k < 7 then 0.3 else 0.9)"

section \<open>Properties\<close>

subsection \<open>Arithmetic on finite numbers\<close>

lemma jmin_Fin [simp]: "jmin (Fin a) (Fin b) = Fin (min a b)"
  by (simp add: min_def)

lemma jmax_Fin [simp]: "jmax (Fin a) (Fin b) = Fin (max a b)"
  by (simp add: max_def)

lemma jsub_Fin [simp]: "jsub (Fin a) (Fin b) = Fin (a - b)"
  by (simp add: jsub_def)

lemma jgt_Fin [simp]: "jgt (Fin a) (Fin b) = (b < a)"
  by (simp add: jgt_def)

lemma jle_Fin [simp]: "jle (Fin a) (Fin b) = (a \<le> b)"
  by (auto simp add: jle_def)

lemma jge_Fin [simp]: "jge (Fin a) (Fin b) = (b \<le> a)"
  by (simp add: jge_def)

lemma jpow2_Fin [simp]: "jpow2 (Fin a) = Fin (a * a)"
  by (simp add: jpow2_def)

subsection \<open>The quality verdict\<close>

lemma count_list_map_filter: "count_list (map f xs) c = length (filter (\<lambda>x. f x = c) xs)"
  by (induction xs) auto

lemma filter_nonempty_iff: "filter (\<lambda>x. f x = c) xs \<noteq> [] \<longleftrightarrow> c \<in> f ` set xs"
  by (induction xs) auto

text \<open>
  Claim C8. \<open>determineOverallQuality\<close> agrees with the verdict of the specification on
  every input: with a classification present the result is read off the quality class
  alone (excellent and good give Good, fair gives Fair, poor and very poor give Poor) and
  the issue list plays no part; without one, the result follows the counts of high and
  medium severity issues and the total number of issues.
\<close>

theorem determineOverallQuality_spec:
  "determineOverallQuality m iss ai = spec_overallQuality iss (map_option qualityClass ai)"
proof (cases ai)
  case None
  then show ?thesis
    by (simp add: determineOverallQuality_def spec_overallQuality_def Let_def
        count_list_map_filter filter_nonempty_iff)
next
  case (Some a)
  then show ?thesis
    by (cases "qualityClass a") (simp_all add: determineOverallQuality_def spec_overallQuality_def)
qed

subsection \<open>The issue list\<close>

lemma push_if: "(if c then xs @ [r] else xs) = xs @ (if c then [r] else [])"
  by simp

lemma map_if_single: "map f (if p then [r] else []) = (if p then [f r] else [])"
  by simp

text \<open>The types of the issues reported, in order: each of the four checks adds at most one.\<close>

lemma issue_types_shape:
  "map issue_type (detectIssues m b c) =
     (if (case b of Some a \<Rightarrow> jlt (overallBlurScore a) (Fin 0.5) | None \<Rightarrow> False)
      then [BlurIssue] else []) @
     (if (case c of
            Some a \<Rightarrow> jlt (jdiv (jadd (globalContrast (cba_contrast a))
                                       (localContrast (cba_contrast a))) (Fin 2)) (Fin 0.3)
          | None \<Rightarrow> jlt (contrast m) (Fin 0.3))
      then [ContrastIssue] else []) @
     (if (case c of
            Some a \<Rightarrow> exposureLevel (cba_brightness a) \<noteq> Optimal
          | None \<Rightarrow> jlt (brightness m) (Fin 0.2) \<or> jgt (brightness m) (Fin 0.8))
      then [BrightnessIssue] else []) @
     (if jgt (noise m) (Fin 0.4) then [NoiseIssue] else [])"
  by (cases b; cases c; hypsubst)
    (simp_all only: detectIssues_def Let_def push_if option.case append_Nil map_append
       map_if_single QualityIssue.simps append_assoc if_False)

text \<open>
  Claim C10. For every input, \<open>detectIssues\<close> reports at most one issue of each type
  (the types of the reported issues are pairwise distinct), never an issue of type
  compression, and so at most four issues.
\<close>

theorem detectIssues_types:
  "distinct (map issue_type (detectIssues m b c)) \<and>
   CompressionIssue \<notin> set (map issue_type (detectIssues m b c)) \<and>
   length (detectIssues m b c) \<le> 4"
proof -
  have "length (detectIssues m b c) = length (map issue_type (detectIssues m b c))" by simp
  then show ?thesis unfolding issue_types_shape by simp
qed

subsection \<open>The technical score\<close>

text \<open>
  Claim C2, as the code has it. For every finite metrics input the technical score is
  \<open>0.25 * sharpness + 0.1 + 0.2 * contrast + 0.05 + 0.15 * (1 - |brightness - 0.5| * 2)
  + 0.1 * saturation + 0.15 * (1 - noise)\<close>, plus \<open>0.1\<close> when the blur analysis is present
  with an overall blur score above \<open>0.7\<close>, plus \<open>0.1\<close> when the exposure analysis is
  present and reports optimal exposure, clamped to \<open>[0, 1]\<close>: the weight of the
  saturation is \<open>0.1\<close>.
\<close>

theorem technicalScore_formula:
  "calculateTechnicalScore
     \<lparr>sharpness = Fin s, contrast = Fin c, brightness = Fin b, saturation = Fin sat, noise = Fin n\<rparr>
     blurA cbA =
   Fin (max 0 (min 1
     (0.25 * s + 0.1 + 0.2 * c + 0.05 + 0.15 * (1 - \<bar>b - 0.5\<bar> * 2) + 0.1 * sat + 0.15 * (1 - n)
      + (if blurBonus blurA then 0.1 else 0) + (if exposureBonus cbA then 0.1 else 0))))"
  by (cases blurA; cases cbA)
     (simp_all add: calculateTechnicalScore_def blurBonus_def exposureBonus_def
        w_sharpness_def w_contrast_def w_brightness_def w_saturation_def w_noise_def algebra_simps)

text \<open>
  The formula of the specification, with weight \<open>0.15\<close> on the saturation, differs from
  the code at sharpness 0, contrast 0, brightness 0.5, saturation 1, noise 1 and no
  blur or exposure analysis: the code gives \<open>0.4\<close>, the formula \<open>0.45\<close>.
\<close>

theorem technicalScore_counterexample:
  "calculateTechnicalScore
     \<lparr>sharpness = Fin 0, contrast = Fin 0, brightness = Fin 0.5, saturation = Fin 1, noise = Fin 1\<rparr>
     None None = Fin 0.4 \<and>
   spec_technicalScore 0 0 0.5 1 1 False False = 0.45 \<and>
   calculateTechnicalScore
     \<lparr>sharpness = Fin 0, contrast = Fin 0, brightness = Fin 0.5, saturation = Fin 1, noise = Fin 1\<rparr>
     None None \<noteq> Fin (spec_technicalScore 0 0 0.5 1 1 False False)"
  by (simp add: calculateTechnicalScore_def spec_technicalScore_def
        w_sharpness_def w_contrast_def w_brightness_def w_saturation_def w_noise_def)

subsection \<open>Loop indices\<close>

lemma indicesFrom_unit: "indicesFrom 1 i (int n) = [i..<n]"
proof (induction "n - i" arbitrary: i)
  case 0
  then show ?case by (simp add: indicesFrom.simps)
next
  case (Suc k)
  then have "i < n" and "k = n - Suc i" by auto
  with Suc.hyps(1)[of "Suc i"] show ?case
    by (subst indicesFrom.simps) (simp add: upt_conv_Cons)
qed

lemma indicesFrom_interior: "indicesFrom 1 1 (int w - 1) = [1..<w - 1]"
proof (cases "w = 0")
  case True
  then show ?thesis by (simp add: indicesFrom.simps)
next
  case False
  then have "int w - 1 = int (w - 1)" by simp
  then show ?thesis by (simp only: indicesFrom_unit)
qed

lemma indicesFrom_mult:
  "0 < s \<Longrightarrow> indicesFrom s (s * j) (int (s * n)) = map ((*) s) [j..<n]"
proof (induction "n - j" arbitrary: j)
  case 0
  then have "n \<le> j" by simp
  then have "s * n \<le> s * j" by simp
  then show ?case using 0 by (simp add: indicesFrom.simps)
next
  case (Suc k)
  then have lt: "j < n" and k: "k = n - Suc j" by auto
  have "s * j < s * n" using lt Suc.prems by simp
  moreover have "s * j + s = s * Suc j" by simp
  ultimately show ?case
    using Suc.hyps(1)[OF k Suc.prems] lt Suc.prems
    by (subst indicesFrom.simps) (simp add: upt_conv_Cons del: mult_Suc_right)
qed

subsection \<open>Histograms\<close>

lemma rawByte_less: "rawByte d i = Some v \<Longrightarrow> v < 256"
proof -
  have "unat (w :: 8 word) < 256" for w
    using unsigned_less[of w, where 'a=nat] by simp
  then show "rawByte d i = Some v \<Longrightarrow> v < 256"
    by (auto simp: rawByte_def split: if_splits)
qed

lemma lumIndex_less: "r < 256 \<Longrightarrow> g < 256 \<Longrightarrow> b < 256 \<Longrightarrow> lumIndex r g b < 256"
proof -
  assume a: "r < 256" "g < 256" "b < 256"
  define x where "x = 0.299 * real r + 0.587 * real g + 0.114 * real b + 1 / 2"
  from a have "real r \<le> 255" "real g \<le> 255" "real b \<le> 255" by simp_all
  then have "x < 256" by (simp add: x_def)
  then have "\<lfloor>x\<rfloor> < 256" using floor_less_iff[of x 256] by simp
  then have "nat \<lfloor>x\<rfloor> < 256" by linarith
  then show ?thesis by (simp only: lumIndex_def x_def)
qed

lemma sum_list_bump: "i < length h \<Longrightarrow> sum_list (bump h i) = sum_list h + 1"
  by (simp add: bump_def sum_list_update)

lemma length_bump [simp]: "length (bump h i) = length h"
  by (simp add: bump_def)

lemma histStep_sums:
  assumes "i + 2 < length d" "histOk h"
  shows "histOk (histStep d h i)"
    and "sum_list (red (histStep d h i)) = sum_list (red h) + 1"
    and "sum_list (green (histStep d h i)) = sum_list (green h) + 1"
    and "sum_list (blue (histStep d h i)) = sum_list (blue h) + 1"
    and "sum_list (luminance (histStep d h i)) = sum_list (luminance h) + 1"
proof -
  obtain r g b where rgb: "rawByte d i = Some r" "rawByte d (Suc i) = Some g"
      "rawByte d (Suc (Suc i)) = Some b"
    using assms(1) by (simp add: rawByte_def)
  then have lt: "r < 256" "g < 256" "b < 256" by (auto dest: rawByte_less)
  then have l: "lumIndex r g b < 256" by (rule lumIndex_less)
  show "histOk (histStep d h i)"
    using assms(2) by (simp add: histStep_def Let_def histOk_def rgb bumpOpt_def)
  show "sum_list (red (histStep d h i)) = sum_list (red h) + 1"
    using assms(2) lt by (simp add: histStep_def Let_def histOk_def rgb bumpOpt_def sum_list_bump)
  show "sum_list (green (histStep d h i)) = sum_list (green h) + 1"
    using assms(2) lt by (simp add: histStep_def Let_def histOk_def rgb bumpOpt_def sum_list_bump)
  show "sum_list (blue (histStep d h i)) = sum_list (blue h) + 1"
    using assms(2) lt by (simp add: histStep_def Let_def histOk_def rgb bumpOpt_def sum_list_bump)
  show "sum_list (luminance (histStep d h i)) = sum_list (luminance h) + 1"
    using assms(2) l by (simp add: histStep_def Let_def histOk_def rgb sum_list_bump)
qed

lemma hist_fold_sums:
  assumes "\<And>i. i \<in> set is \<Longrightarrow> i + 2 < length d" "histOk h"
  shows "histOk (foldl (histStep d) h is) \<and>
         sum_list (red (foldl (histStep d) h is)) = sum_list (red h) + length is \<and>
         sum_list (green (foldl (histStep d) h is)) = sum_list (green h) + length is \<and>
         sum_list (blue (foldl (histStep d) h is)) = sum_list (blue h) + length is \<and>
         sum_list (luminance (foldl (histStep d) h is)) = sum_list (luminance h) + length is"
  using assms
proof (induction "is" arbitrary: h)
  case Nil
  then show ?case by simp
next
  case (Cons i "is")
  have i: "i + 2 < length d" using Cons.prems(1) by simp
  note s = histStep_sums[OF i Cons.prems(2)]
  have "\<And>j. j \<in> set is \<Longrightarrow> j + 2 < length d" using Cons.prems(1) by simp
  from Cons.IH[OF this s(1)] show ?case
    by (simp add: s)
qed

lemma initial_histOk:
  "histOk \<lparr>red = replicate HISTOGRAM_BINS 0, green = replicate HISTOGRAM_BINS 0,
        blue = replicate HISTOGRAM_BINS 0, luminance = replicate HISTOGRAM_BINS 0,
        bins = HISTOGRAM_BINS\<rparr>"
  by (simp add: histOk_def HISTOGRAM_BINS_def)

text \<open>
  Claim C7. For every well-formed buffer, each of the four histograms built by
  \<open>calculateHistogram\<close> (which \<open>analyzeContrastBrightness\<close> returns unchanged) has 256
  bins whose entries sum to \<open>width * height\<close>: every pixel is counted once per channel,
  and once in the histogram of the rounded luminance.
\<close>

theorem histogram_sums:
  assumes "wellFormed img"
  shows "sum_list (red (cba_histogram (analyzeContrastBrightness img))) = width img * height img \<and>
         sum_list (green (cba_histogram (analyzeContrastBrightness img))) = width img * height img \<and>
         sum_list (blue (cba_histogram (analyzeContrastBrightness img))) = width img * height img \<and>
         sum_list (luminance (cba_histogram (analyzeContrastBrightness img))) = width img * height img \<and>
         length (red (cba_histogram (analyzeContrastBrightness img))) = 256 \<and>
         length (green (cba_histogram (analyzeContrastBrightness img))) = 256 \<and>
         length (blue (cba_histogram (analyzeContrastBrightness img))) = 256 \<and>
         length (luminance (cba_histogram (analyzeContrastBrightness img))) = 256"
proof -
  let ?n = "width img * height img"
  have len: "length (data img) = 4 * ?n" using assms by (simp add: wellFormed_def)
  have idx: "indicesFrom 4 0 (int (length (data img))) = map ((*) 4) [0..<?n]"
    using indicesFrom_mult[of 4 0 ?n] by (simp add: len)
  have inr: "\<And>i. i \<in> set (map ((*) 4) [0..<?n]) \<Longrightarrow> i + 2 < length (data img)"
    by (auto simp: len)
  have h: "cba_histogram (analyzeContrastBrightness img) = calculateHistogram img"
    by (simp add: analyzeContrastBrightness_def Let_def)
  have "sum_list (replicate HISTOGRAM_BINS (0::nat)) = 0" by simp
  then show ?thesis
    using hist_fold_sums[of "map ((*) 4) [0..<?n]" "data img", OF inr initial_histOk]
    unfolding h calculateHistogram_def idx
    by (simp add: histOk_def)
qed

theorem histogram_sums_witness:
  "wellFormed twoPixels \<and>
   sum_list (red (cba_histogram (analyzeContrastBrightness twoPixels))) = 2 \<and>
   sum_list (green (cba_histogram (analyzeContrastBrightness twoPixels))) = 2 \<and>
   sum_list (blue (cba_histogram (analyzeContrastBrightness twoPixels))) = 2 \<and>
   sum_list (luminance (cba_histogram (analyzeContrastBrightness twoPixels))) = 2"
proof -
  have wf: "wellFormed twoPixels" by (simp add: wellFormed_def twoPixels_def)
  show ?thesis using wf histogram_sums[OF wf] by (simp add: twoPixels_def)
qed

subsection \<open>Buffers of a single colour\<close>

lemma uniform_step:
  assumes "i + 2 < length d" "d ! i = r" "d ! (i + 1) = g" "d ! (i + 2) = b"
  shows "luminance (histStep d h i) = bump (luminance h) (lumIndex (unat r) (unat g) (unat b))"
  using assms by (simp add: histStep_def Let_def rawByte_def)

lemma uniform_fold:
  assumes "\<And>i. i \<in> set is \<Longrightarrow> i + 2 < length d \<and> d ! i = r \<and> d ! (i + 1) = g \<and> d ! (i + 2) = b"
    and "l = lumIndex (unat r) (unat g) (unat b)"
  shows "luminance (foldl (histStep d) h is) = (luminance h)[l := luminance h ! l + length is]"
  using assms(1)
proof (induction "is" arbitrary: h)
  case Nil
  then show ?case by simp
next
  case (Cons i "is")
  have st: "luminance (histStep d h i) = bump (luminance h) l"
    using Cons.prems[of i] uniform_step[of i d r g b h] assms(2) by simp
  have "luminance (foldl (histStep d) (histStep d h i) is) =
        (luminance (histStep d h i))[l := luminance (histStep d h i) ! l + length is]"
    by (rule Cons.IH) (use Cons.prems in simp)
  then show ?case
    by (cases "l < length (luminance h)") (simp_all add: st bump_def list_update_beyond)
qed

lemma uniform_histogram:
  assumes "wellFormed img" "uniformColor img r g b"
  shows "luminance (calculateHistogram img) =
         spike (lumIndex (unat r) (unat g) (unat b)) (width img * height img)"
proof -
  let ?n = "width img * height img"
  have len: "length (data img) = 4 * ?n" using assms(1) by (simp add: wellFormed_def)
  have idx: "indicesFrom 4 0 (int (length (data img))) = map ((*) 4) [0..<?n]"
    using indicesFrom_mult[of 4 0 ?n] by (simp add: len)
  have u: "\<And>i. i \<in> set (map ((*) 4) [0..<?n]) \<Longrightarrow>
     i + 2 < length (data img) \<and> data img ! i = r \<and> data img ! (i + 1) = g \<and> data img ! (i + 2) = b"
    using assms(2) by (auto simp: len uniformColor_def list_all_iff)
  have "unat w < 256" for w :: "8 word"
    using unsigned_less[of w, where 'a=nat] by simp
  then have "lumIndex (unat r) (unat g) (unat b) < 256" by (intro lumIndex_less)
  then show ?thesis
    unfolding calculateHistogram_def idx
    by (subst uniform_fold[of _ "data img" r g b, OF u refl])
       (simp_all add: spike_def HISTOGRAM_BINS_def)
qed

lemma spike_nth: "l < 256 \<Longrightarrow> i < 256 \<Longrightarrow> spike l n ! i = (if i = l then n else 0)"
  by (simp add: spike_def)

lemma length_spike [simp]: "length (spike l n) = 256"
  by (simp add: spike_def)

lemma findMin_spike:
  assumes "l < 256" "0 < n"
  shows "findMinNonZero (spike l n) = l"
proof -
  have "find (\<lambda>i. 0 < spike l n ! i) [0..<256] = Some l"
    unfolding find_Some_iff
    by (rule exI[of _ l]) (use assms in \<open>simp add: spike_nth\<close>)
  then show ?thesis by (simp add: findMinNonZero_def)
qed

lemma findMax_spike:
  assumes "l < 256" "0 < n"
  shows "findMaxNonZero (spike l n) = l"
proof -
  have "find (\<lambda>i. 0 < spike l n ! i) (rev [0..<256]) = Some l"
    unfolding find_Some_iff
    by (rule exI[of _ "255 - l"]) (use assms in \<open>auto simp add: spike_nth rev_nth\<close>)
  then show ?thesis by (simp add: findMaxNonZero_def)
qed

lemma foldl_add_sum: "foldl (\<lambda>s (c::nat). s + c) a xs = a + sum_list xs"
  by (induction xs arbitrary: a) auto

lemma totalCount_sum: "totalCount h = sum_list h"
  by (simp add: totalCount_def foldl_add_sum)

lemma sum_list_spike: "l < 256 \<Longrightarrow> sum_list (spike l n) = n"
  by (simp add: spike_def sum_list_update)

lemma percentile_before:
  assumes "l < 256" "0 < n" "j \<le> l" "0 < t10" "0 < t90"
  shows "percentileLoop (spike l n) t10 t90 0 0 255 [j..<256] =
         percentileLoop (spike l n) t10 t90 0 0 255 [l..<256]"
  using assms(3)
proof (induction "l - j" arbitrary: j)
  case 0
  then show ?case by simp
next
  case (Suc k)
  then have jl: "j < l" and k: "k = l - Suc j" by auto
  have "[j..<256] = j # [Suc j..<256]" using jl assms(1) by (simp add: upt_conv_Cons)
  moreover have "spike l n ! j = 0" using jl assms(1) by (simp add: spike_nth)
  ultimately show ?case
    using Suc.hyps(1)[OF k] jl assms(4,5) by simp
qed

lemma percentile_spike:
  assumes "l < 256" "0 < n" "0 < t10" "0 < t90" "t10 \<le> real n" "t90 \<le> real n"
  shows "percentileLoop (spike l n) t10 t90 0 0 255 [0..<256] = (l, l)"
proof -
  have "[l..<256] = l # [Suc l..<256]" using assms(1) by (simp add: upt_conv_Cons)
  moreover have "spike l n ! l = n" using assms(1) by (simp add: spike_nth)
  ultimately have "percentileLoop (spike l n) t10 t90 0 0 255 [l..<256] = (l, l)"
    using assms by simp
  then show ?thesis
    using percentile_before[OF assms(1,2) _ assms(3,4), of 0] by simp
qed

lemma contrastRatio_spike:
  assumes "l < 256" "0 < n" "luminance h = spike l n"
  shows "calculateContrastRatio h = Fin 1"
proof -
  have "percentileLoop (spike l n) (real n * 0.1) (real n * 0.9) 0 0 255 [0..<256] = (l, l)"
    using assms(1,2) by (intro percentile_spike) simp_all
  then show ?thesis
    using assms by (simp add: calculateContrastRatio_def totalCount_sum sum_list_spike)
qed

lemma uniform_contrast:
  assumes "wellFormed img" "uniformColor img r g b"
  defines "l \<equiv> lumIndex (unat r) (unat g) (unat b)"
  shows "contrastRatio (cba_contrast (analyzeContrastBrightness img)) = Fin 1"
    and "michelsonContrast (cba_contrast (analyzeContrastBrightness img)) =
           (if l = 0 then NaN else Fin 0)"
proof -
  let ?n = "width img * height img"
  have n: "0 < ?n" using assms(1) by (simp add: wellFormed_def)
  have "unat w < 256" for w :: "8 word"
    using unsigned_less[of w, where 'a=nat] by simp
  then have l: "l < 256" unfolding l_def by (intro lumIndex_less)
  have h: "luminance (calculateHistogram img) = spike l ?n"
    unfolding l_def by (rule uniform_histogram[OF assms(1,2)])
  show "contrastRatio (cba_contrast (analyzeContrastBrightness img)) = Fin 1"
    by (simp add: analyzeContrastBrightness_def calculateContrastMetrics_def Let_def
          contrastRatio_spike[OF l n h])
  have mx: "findMaxNonZero (luminance (calculateHistogram img)) = l"
    and mn: "findMinNonZero (luminance (calculateHistogram img)) = l"
    by (simp_all only: h findMin_spike[OF l n] findMax_spike[OF l n])
  have "michelsonContrast (cba_contrast (analyzeContrastBrightness img)) =
          jdiv (jsub (Fin (real l)) (Fin (real l))) (jadd (Fin (real l)) (Fin (real l)))"
    by (simp only: analyzeContrastBrightness_def calculateContrastMetrics_def Let_def mx mn
          ContrastMetrics.simps ContrastBrightnessAnalysis.simps)
  then show "michelsonContrast (cba_contrast (analyzeContrastBrightness img)) =
           (if l = 0 then NaN else Fin 0)"
    by simp
qed


lemma concat_replicate4_nth:
  "p < n \<Longrightarrow> c < 4 \<Longrightarrow> concat (replicate n [r, g, b, a]) ! (4 * p + c) = [r, g, b, a] ! c"
proof (induction n arbitrary: p)
  case 0
  then show ?case by simp
next
  case (Suc n)
  show ?case
  proof (cases p)
    case 0
    have "c = 0 \<or> c = 1 \<or> c = 2 \<or> c = 3" using Suc.prems(2) by arith
    then show ?thesis using 0 by auto
  next
    case (Suc q)
    then have "q < n" using Suc.prems by simp
    from Suc.IH[OF this Suc.prems(2)] Suc show ?thesis
      by (simp add: nth_append nth_Cons')
  qed
qed

lemma length_concat_replicate4 [simp]: "length (concat (replicate n [r, g, b, a])) = 4 * n"
  by (induction n) auto

lemma uniformImage_wellFormed: "0 < w \<Longrightarrow> 0 < h \<Longrightarrow> wellFormed (uniformImage w h r g b a)"
  by (simp add: wellFormed_def uniformImage_def)

lemma uniformImage_uniformColor: "uniformColor (uniformImage w h r g b a) r g b"
  unfolding uniformColor_def list_all_iff
proof
  fix p assume "p \<in> set [0..<width (uniformImage w h r g b a) * height (uniformImage w h r g b a)]"
  then have p: "p < w * h" by (simp add: uniformImage_def)
  show "data (uniformImage w h r g b a) ! (4 * p) = r \<and>
        data (uniformImage w h r g b a) ! (4 * p + 1) = g \<and>
        data (uniformImage w h r g b a) ! (4 * p + 2) = b"
    using concat_replicate4_nth[OF p, of 0 r g b a] concat_replicate4_nth[OF p, of 1 r g b a]
      concat_replicate4_nth[OF p, of 2 r g b a]
    by (simp add: uniformImage_def)
qed

lemma lumIndex_gray: "lumIndex 128 128 128 = 128"
  by (simp add: lumIndex_def)

text \<open>
  Claim C3, as the code has it. For every well-formed buffer of a single colour,
  \<open>contrastRatio\<close> is 1, and \<open>michelsonContrast\<close> is 0 whenever the rounded luminance of
  the colour is not 0: the brightest and the darkest occupied bin coincide, so the
  numerator \<open>maxLum - minLum\<close> is 0.
\<close>

theorem uniform_contrast_values:
  assumes "wellFormed img" "uniformColor img r g b"
  shows "contrastRatio (cba_contrast (analyzeContrastBrightness img)) = Fin 1 \<and>
         (0 < lumIndex (unat r) (unat g) (unat b) \<longrightarrow>
            michelsonContrast (cba_contrast (analyzeContrastBrightness img)) = Fin 0)"
  using uniform_contrast[OF assms] by simp

theorem uniform_contrast_values_witness:
  "wellFormed (uniformImage 2 2 128 128 128 255) \<and>
   uniformColor (uniformImage 2 2 128 128 128 255) 128 128 128 \<and>
   0 < lumIndex (unat (128 :: 8 word)) (unat (128 :: 8 word)) (unat (128 :: 8 word)) \<and>
   contrastRatio (cba_contrast (analyzeContrastBrightness (uniformImage 2 2 128 128 128 255))) = Fin 1 \<and>
   michelsonContrast (cba_contrast (analyzeContrastBrightness (uniformImage 2 2 128 128 128 255))) = Fin 0"
proof -
  have wf: "wellFormed (uniformImage 2 2 128 128 128 255)"
    by (simp add: wellFormed_def uniformImage_def)
  have u: "uniformColor (uniformImage 2 2 128 128 128 255) 128 128 128"
    by (simp add: uniformColor_def uniformImage_def numeral_eq_Suc upt_rec)
  have l: "0 < lumIndex (unat (128 :: 8 word)) (unat (128 :: 8 word)) (unat (128 :: 8 word))"
    by (simp add: lumIndex_gray)
  show ?thesis using wf u l uniform_contrast_values[OF wf u] by simp
qed

text \<open>
  On the 2 by 2 buffer of mid-gray pixels \<open>(128, 128, 128)\<close> the Michelson contrast is
  \<open>(128 - 128) / (128 + 128) = 0\<close>, not 1.
\<close>

theorem michelson_uniform_counterexample:
  "michelsonContrast (cba_contrast (analyzeContrastBrightness (uniformImage 2 2 128 128 128 255))) = Fin 0 \<and>
   michelsonContrast (cba_contrast (analyzeContrastBrightness (uniformImage 2 2 128 128 128 255))) \<noteq> Fin 1"
proof -
  have wf: "wellFormed (uniformImage 2 2 128 128 128 255)"
    by (rule uniformImage_wellFormed) simp_all
  have u: "uniformColor (uniformImage 2 2 128 128 128 255) 128 128 128"
    by (rule uniformImage_uniformColor)
  show ?thesis
    using uniform_contrast(2)[OF wf u] by (simp add: lumIndex_gray)
qed

subsection \<open>Luminance and kernels on buffers of the right length\<close>

lemma pixel_in_range:
  assumes "x < w" "y < h"
  shows "pixelIndex w x y + 3 < 4 * w * h"
proof -
  have "Suc y * w \<le> h * w" using assms(2) by (intro mult_le_mono1) simp
  then have "y * w + x < h * w" using assms(1) by simp
  then show ?thesis by (simp add: pixelIndex_def mult.commute)
qed

lemma grayAt_Fin:
  assumes "sized img" "x < width img" "y < height img"
  shows "grayAt img x y = Fin (lumR img x y)"
proof -
  have "pixelIndex (width img) x y + 3 < length (data img)"
    using pixel_in_range[OF assms(2,3)] assms(1) by (simp add: sized_def)
  then show ?thesis
    by (simp add: grayAt_def gray_def byteAt_def lumR_def)
qed

lemma lumR_bounds: "0 \<le> lumR img x y \<and> lumR img x y \<le> 255"
proof -
  have b: "0 \<le> real (unat w) \<and> real (unat w) \<le> 255" for w :: "8 word"
  proof -
    have "unat w \<le> 255" using unsigned_less[of w, where 'a=nat] by simp
    then have "real (unat w) \<le> real 255" by (simp only: of_nat_le_iff)
    moreover have "0 \<le> real (unat w)" by (rule of_nat_0_le_iff)
    ultimately show ?thesis by simp
  qed
  show ?thesis
    unfolding lumR_def
    using b[of "data img ! pixelIndex (width img) x y"]
      b[of "data img ! (pixelIndex (width img) x y + 1)"]
      b[of "data img ! (pixelIndex (width img) x y + 2)"]
    by simp
qed

lemma interior_iff:
  "(x, y) \<in> set (interior w h) \<longleftrightarrow> 1 \<le> x \<and> x + 1 < w \<and> 1 \<le> y \<and> y + 1 < h"
  unfolding interior_def indicesFrom_interior by (auto simp: image_iff)

lemma offsets3_list:
  "offsets3 = [(-1, -1), (0, -1), (1, -1), (-1, 0), (0, 0), (1, 0), (-1, 1), (0, 1), (1, 1)]"
  by (simp add: offsets3_def)

lemma applyKernel_Fin:
  assumes "sized img" "(x, y) \<in> set (interior (width img) (height img))"
  shows "applyKernel k img x y = Fin (convR k img x y)"
proof -
  have r: "1 \<le> x" "x + 1 < width img" "1 \<le> y" "y + 1 < height img"
    using assms(2) by (simp_all add: interior_iff)
  have n: "nat (int x - 1) = x - 1" "nat (int y - 1) = y - 1"
          "nat (int x + 1) = x + 1" "nat (int y + 1) = y + 1"
    by simp_all
  have g: "grayAt img (x - Suc 0) (y - Suc 0) = Fin (lumR img (x - Suc 0) (y - Suc 0))"
    "grayAt img x (y - Suc 0) = Fin (lumR img x (y - Suc 0))"
    "grayAt img (Suc x) (y - Suc 0) = Fin (lumR img (Suc x) (y - Suc 0))"
    "grayAt img (x - Suc 0) y = Fin (lumR img (x - Suc 0) y)"
    "grayAt img x y = Fin (lumR img x y)"
    "grayAt img (Suc x) y = Fin (lumR img (Suc x) y)"
    "grayAt img (x - Suc 0) (Suc y) = Fin (lumR img (x - Suc 0) (Suc y))"
    "grayAt img x (Suc y) = Fin (lumR img x (Suc y))"
    "grayAt img (Suc x) (Suc y) = Fin (lumR img (Suc x) (Suc y))"
    using r by (auto intro!: grayAt_Fin[OF assms(1)])
  show ?thesis
    unfolding applyKernel_def offsets3_list convR_def
    by (simp add: n g del: of_nat_Suc)
qed

lemma foldl_jadd_Fin:
  assumes "\<And>x y. (x, y) \<in> set ps \<Longrightarrow> F x y = Fin (G x y)"
  shows "foldl (\<lambda>acc (x, y). jadd acc (F x y)) (Fin a) ps = Fin (a + (\<Sum>(x, y)\<leftarrow>ps. G x y))"
  using assms
proof (induction ps arbitrary: a)
  case Nil
  then show ?case by simp
next
  case (Cons p ps)
  obtain x y where p: "p = (x, y)" by (cases p)
  have "F x y = Fin (G x y)" using Cons.prems p by simp
  moreover have "\<And>x y. (x, y) \<in> set ps \<Longrightarrow> F x y = Fin (G x y)" using Cons.prems by simp
  ultimately show ?case using Cons.IH[of "a + G x y"] p by (simp add: add.assoc)
qed

lemma sum_list_nonneg_prod:
  "(\<And>x y. (x, y) \<in> set ps \<Longrightarrow> 0 \<le> G x y) \<Longrightarrow> 0 \<le> (\<Sum>(x, y)\<leftarrow>ps. (G x y :: real))"
  by (induction ps) auto

lemma sum_list_zero_prod:
  "(\<And>x y. (x, y) \<in> set ps \<Longrightarrow> G x y = 0) \<Longrightarrow> (\<Sum>(x, y)\<leftarrow>ps. (G x y :: real)) = 0"
  by (induction ps) auto

lemma laplacianVariance_Fin:
  assumes "sized img" "interior (width img) (height img) \<noteq> []"
  defines "pts \<equiv> interior (width img) (height img)"
  defines "mean \<equiv> (\<Sum>(x, y)\<leftarrow>pts. \<bar>convR laplacianKernel img x y\<bar>) / real (length pts)"
  shows "calculateLaplacianVariance img =
         Fin ((\<Sum>(x, y)\<leftarrow>pts. (\<bar>convR laplacianKernel img x y\<bar> - mean) * (\<bar>convR laplacianKernel img x y\<bar> - mean))
              / real (length pts))"
proof -
  have ne: "real (length pts) \<noteq> 0" using assms(2) by (simp add: pts_def)
  have m: "foldl (\<lambda>mean (x, y). jadd mean (jabs (applyKernel laplacianKernel img x y))) (Fin 0) pts =
           Fin (0 + (\<Sum>(x, y)\<leftarrow>pts. \<bar>convR laplacianKernel img x y\<bar>))"
    by (rule foldl_jadd_Fin) (simp add: pts_def applyKernel_Fin[OF assms(1)])
  have mm: "jdiv (Fin (\<Sum>(x, y)\<leftarrow>pts. \<bar>convR laplacianKernel img x y\<bar>)) (Fin (real (length pts))) = Fin mean"
    using ne by (simp add: mean_def)
  have v: "foldl (\<lambda>v (x, y). jadd v (jpow2 (jsub (jabs (applyKernel laplacianKernel img x y)) (Fin mean))))
             (Fin 0) pts =
           Fin (0 + (\<Sum>(x, y)\<leftarrow>pts. (\<bar>convR laplacianKernel img x y\<bar> - mean) * (\<bar>convR laplacianKernel img x y\<bar> - mean)))"
    by (rule foldl_jadd_Fin) (simp add: pts_def applyKernel_Fin[OF assms(1)])
  have "calculateLaplacianVariance img =
        jdiv (foldl (\<lambda>v (x, y). jadd v (jpow2 (jsub (jabs (applyKernel laplacianKernel img x y)) (Fin mean))))
               (Fin 0) pts) (Fin (real (length pts)))"
    unfolding calculateLaplacianVariance_def Let_def pts_def[symmetric] m
    by (simp only: add_0 mm)
  then show ?thesis unfolding v using ne by simp
qed

lemma laplacianVariance_nonneg:
  assumes "sized img" "interior (width img) (height img) \<noteq> []"
  shows "\<exists>v. calculateLaplacianVariance img = Fin v \<and> 0 \<le> v"
  unfolding laplacianVariance_Fin[OF assms]
  by (auto intro!: divide_nonneg_nonneg sum_list_nonneg)

lemma const_variance:
  assumes "sized B" "interior (width B) (height B) \<noteq> []"
    and "\<And>px py. px < width B \<Longrightarrow> py < height B \<Longrightarrow> lumR B px py = L"
  shows "calculateLaplacianVariance B = Fin 0"
proof -
  have c: "convR laplacianKernel B px py = 0"
    if "(px, py) \<in> set (interior (width B) (height B))" for px py
  proof -
    have r: "1 \<le> px" "px + 1 < width B" "1 \<le> py" "py + 1 < height B"
      using that by (simp_all add: interior_iff)
    then have "lumR B (px - 1) (py - 1) = L" "lumR B px (py - 1) = L" "lumR B (px + 1) (py - 1) = L"
      "lumR B (px - 1) py = L" "lumR B px py = L" "lumR B (px + 1) py = L"
      "lumR B (px - 1) (py + 1) = L" "lumR B px (py + 1) = L" "lumR B (px + 1) (py + 1) = L"
      by (auto intro!: assms(3))
    then show ?thesis by (simp add: convR_def laplacianKernel_def)
  qed
  have m: "(\<Sum>(x, y)\<leftarrow>interior (width B) (height B). \<bar>convR laplacianKernel B x y\<bar>) = 0"
    by (rule sum_list_zero_prod) (simp add: c)
  have v: "(\<Sum>(x, y)\<leftarrow>interior (width B) (height B).
              (\<bar>convR laplacianKernel B x y\<bar> - 0) * (\<bar>convR laplacianKernel B x y\<bar> - 0)) = 0"
    by (rule sum_list_zero_prod) (simp add: c)
  show ?thesis
    unfolding laplacianVariance_Fin[OF assms(1,2)] m using v by simp
qed

subsection \<open>Block extraction\<close>

lemma extractBlock_alt:
  "extractBlock img sx sy bw bh =
     \<lparr>width = bw, height = bh,
      data = foldl (blockStep img sx sy bw) (replicate (bw * bh * 4) 0) (blockPositions bw bh)\<rparr>"
proof -
  have "(\<lambda>blk (x, y). blockStep img sx sy bw blk (x, y)) = blockStep img sx sy bw"
    by (intro ext) auto
  then show ?thesis
    unfolding extractBlock_def blockPositions_def Let_def indicesFrom_unit
    by (simp add: blockStep_def Let_def)
qed

lemma length_blockStep [simp]: "length (blockStep img sx sy bw blk p) = length blk"
  by (cases p) (simp add: blockStep_def Let_def)

lemma length_fold_blockStep [simp]: "length (foldl (blockStep img sx sy bw) blk ps) = length blk"
  by (induction ps arbitrary: blk) auto

lemma extractBlock_sized:
  "sized (extractBlock img sx sy bw bh) \<and> width (extractBlock img sx sy bw bh) = bw \<and>
   height (extractBlock img sx sy bw bh) = bh"
  by (simp add: extractBlock_alt sized_def)

lemma target_inj:
  fixes px py x y bw :: nat
  assumes "px < bw" "x < bw" "(px, py) \<noteq> (x, y)"
  shows "py * bw + px \<noteq> y * bw + x"
proof
  assume e: "py * bw + px = y * bw + x"
  have "(py * bw + px) div bw = py" "(y * bw + x) div bw = y" using assms(1,2) by simp_all
  then have "py = y" using e by simp
  then show False using e assms(3) by simp
qed

lemma blockStep_other:
  assumes "px < bw" "x < bw" "(px, py) \<noteq> (x, y)" "c < 4"
  shows "blockStep img sx sy bw blk (x, y) ! ((py * bw + px) * 4 + c) = blk ! ((py * bw + px) * 4 + c)"
proof -
  have "py * bw + px \<noteq> y * bw + x" by (rule target_inj[OF assms(1,2,3)])
  then have "(py * bw + px) * 4 + c \<noteq> (y * bw + x) * 4 + c'" if "c' < 4" for c'
    using that assms(4) by arith
  from this[of 0] this[of 1] this[of 2] this[of 3] show ?thesis
    by (simp add: blockStep_def Let_def)
qed

lemma blockStep_same:
  assumes "(py * bw + px) * 4 + 3 < length blk" "c < 4"
  shows "blockStep img sx sy bw blk (px, py) ! ((py * bw + px) * 4 + c) =
         sourceByte (data img) (((sy + py) * width img + (sx + px)) * 4 + c)"
proof -
  have "c = 0 \<or> c = 1 \<or> c = 2 \<or> c = 3" using assms(2) by arith
  then show ?thesis using assms(1)
    by (auto simp: blockStep_def Let_def nth_list_update)
qed

lemma fold_blockStep_nth:
  assumes "\<And>x y. (x, y) \<in> set ps \<Longrightarrow> x < bw"
    and "(px, py) \<in> set ps" "px < bw" "(py * bw + px) * 4 + 3 < length blk" "c < 4"
  shows "foldl (blockStep img sx sy bw) blk ps ! ((py * bw + px) * 4 + c) =
         sourceByte (data img) (((sy + py) * width img + (sx + px)) * 4 + c)"
  using assms(1,2)
proof (induction ps rule: rev_induct)
  case Nil
  then show ?case by simp
next
  case (snoc p ps)
  obtain x y where p: "p = (x, y)" by (cases p)
  have xb: "x < bw" using snoc.prems(1)[of x y] p by simp
  show ?case
  proof (cases "(px, py) = (x, y)")
    case True
    then show ?thesis
      using blockStep_same[of py bw px "foldl (blockStep img sx sy bw) blk ps" c img sx sy]
        assms(4,5) p by simp
  next
    case False
    then have "(px, py) \<in> set ps" using snoc.prems(2) p by auto
    moreover have "\<And>x y. (x, y) \<in> set ps \<Longrightarrow> x < bw" using snoc.prems(1) by auto
    ultimately have "foldl (blockStep img sx sy bw) blk ps ! ((py * bw + px) * 4 + c) =
         sourceByte (data img) (((sy + py) * width img + (sx + px)) * 4 + c)"
      by (rule snoc.IH[rotated])
    then show ?thesis
      using blockStep_other[OF assms(3) xb False assms(5)] p by simp
  qed
qed

lemma extractBlock_nth:
  assumes "px < bw" "py < bh" "c < 4"
  shows "data (extractBlock img sx sy bw bh) ! (pixelIndex bw px py + c) =
         sourceByte (data img) (pixelIndex (width img) (sx + px) (sy + py) + c)"
proof -
  have m: "(px, py) \<in> set (blockPositions bw bh)"
    using assms(1,2) by (auto simp: blockPositions_def image_iff)
  have b: "\<And>x y. (x, y) \<in> set (blockPositions bw bh) \<Longrightarrow> x < bw"
    by (auto simp: blockPositions_def)
  have "pixelIndex bw px py + 3 < 4 * bw * bh" by (rule pixel_in_range[OF assms(1,2)])
  then have l: "(py * bw + px) * 4 + 3 < length (replicate (bw * bh * 4) (0 :: 8 word))"
    by (simp add: pixelIndex_def mult.commute)
  show ?thesis
    unfolding extractBlock_alt pixelIndex_def
    using fold_blockStep_nth[OF b m assms(1) l assms(3)] by simp
qed

subsection \<open>Blur regions\<close>

lemma interior_block_nonempty: "interior 32 32 \<noteq> []"
proof -
  have "(1, 1) \<in> set (interior 32 32)" by (simp add: interior_iff)
  then show ?thesis by auto
qed

lemma block_variance_nonneg:
  "\<exists>v. calculateLaplacianVariance (extractBlock img x y blockSize blockSize) = Fin v \<and> 0 \<le> v"
proof -
  let ?b = "extractBlock img x y blockSize blockSize"
  have s: "sized ?b" and w: "width ?b = 32" and h: "height ?b = 32"
    using extractBlock_sized[of img x y blockSize blockSize] by (simp_all add: blockSize_def)
  have "interior (width ?b) (height ?b) \<noteq> []"
    unfolding w h by (rule interior_block_nonempty)
  then show ?thesis by (rule laplacianVariance_nonneg[OF s])
qed

lemma region_props:
  assumes "r \<in> set (detectBlurRegions img w h)"
  shows "\<exists>s. blurScore r = Fin s \<and> 0.5 < s \<and> s \<le> 1 \<and>
             (region_type r = Focus \<or> region_type r = Motion)"
proof -
  obtain x y where r: "r \<in> set
      (let blockData = extractBlock img x y blockSize blockSize;
           blockBlurScore = calculateLaplacianVariance blockData
       in if jlt blockBlurScore (Fin 500)
          then [\<lparr>region_x = x, region_y = y, region_width = blockSize, region_height = blockSize,
                 blurScore = jsub (Fin 1) (jmin (jdiv blockBlurScore (Fin 1000)) (Fin 1)),
                 region_type = (if jlt blockBlurScore (Fin 200) then Focus else Motion)\<rparr>]
          else [])"
    using assms unfolding detectBlurRegions_def by auto
  obtain v where v: "calculateLaplacianVariance (extractBlock img x y blockSize blockSize) = Fin v"
    and v0: "0 \<le> v"
    using block_variance_nonneg by blast
  from r v have lt: "v < 500"
    and e: "r = \<lparr>region_x = x, region_y = y, region_width = blockSize, region_height = blockSize,
                 blurScore = Fin (1 - min (v / 1000) 1),
                 region_type = (if v < 200 then Focus else Motion)\<rparr>"
    by (auto simp: Let_def split: if_splits)
  have "1 - min (v / 1000) 1 = 1 - v / 1000" using lt by (simp add: min_def)
  then show ?thesis using lt v0 by (simp add: e)
qed

lemma indicesFrom_bound: "x \<in> set (indicesFrom s i limit) \<Longrightarrow> int x < limit"
proof (induction s i limit rule: indicesFrom.induct)
  case (1 step i limit)
  show ?case
  proof (cases "0 < step \<and> int i < limit")
    case True
    then have "x = i \<or> x \<in> set (indicesFrom step (i + step) limit)"
      using "1.prems" by (subst (asm) indicesFrom.simps) simp
    then show ?thesis using True "1.IH" by auto
  next
    case False
    then show ?thesis using "1.prems" by (subst (asm) indicesFrom.simps) simp
  qed
qed

lemma indicesFrom_empty: "limit \<le> int i \<Longrightarrow> indicesFrom s i limit = []"
  by (subst indicesFrom.simps) simp

lemma uniform_source:
  assumes "X < w" "Y < h" "c < 4"
  shows "sourceByte (data (uniformImage w h r g b a)) (pixelIndex w X Y + c) = [r, g, b, a] ! c"
proof -
  have p: "Y * w + X < w * h"
    using pixel_in_range[OF assms(1,2)] by (simp add: pixelIndex_def)
  have "pixelIndex w X Y + c = 4 * (Y * w + X) + c" by (simp add: pixelIndex_def)
  moreover have "4 * (Y * w + X) + c < 4 * (w * h)" using p assms(3) by simp
  ultimately show ?thesis
    using concat_replicate4_nth[OF p assms(3), of r g b a]
    by (simp add: sourceByte_def uniformImage_def)
qed

lemma uniform_block_lum:
  assumes "x + 32 \<le> w" "y + 32 \<le> h" "px < 32" "py < 32"
  shows "lumR (extractBlock (uniformImage w h r g b a) x y 32 32) px py = lumOf r g b"
proof -
  let ?U = "uniformImage w h r g b a"
  have X: "x + px < w" and Y: "y + py < h" using assms by simp_all
  have wU: "width ?U = w" by (simp add: uniformImage_def)
  have e: "data (extractBlock ?U x y 32 32) ! (pixelIndex 32 px py + c) = [r, g, b, a] ! c"
    if "c < 4" for c
    using extractBlock_nth[OF assms(3,4) that, of ?U x y] uniform_source[OF X Y that, of r g b a]
    by (simp add: wU)
  have w32: "width (extractBlock ?U x y 32 32) = 32"
    using extractBlock_sized[of ?U x y 32 32] by simp
  show ?thesis
    unfolding lumR_def lumOf_def w32
    using e[of 0] e[of 1] e[of 2] by simp
qed

lemma uniform_block_variance:
  assumes "x + 32 \<le> w" "y + 32 \<le> h"
  shows "calculateLaplacianVariance (extractBlock (uniformImage w h r g b a) x y blockSize blockSize) = Fin 0"
proof -
  let ?B = "extractBlock (uniformImage w h r g b a) x y 32 32"
  have s: "sized ?B" and w32: "width ?B = 32" and h32: "height ?B = 32"
    using extractBlock_sized[of "uniformImage w h r g b a" x y 32 32] by simp_all
  have i: "interior (width ?B) (height ?B) \<noteq> []"
    unfolding w32 h32 by (rule interior_block_nonempty)
  have "calculateLaplacianVariance ?B = Fin 0"
    by (rule const_variance[OF s i, of "lumOf r g b"])
       (simp add: w32 h32 uniform_block_lum[OF assms])
  then show ?thesis by (simp add: blockSize_def)
qed

lemma uniform_regions:
  "detectBlurRegions (uniformImage w h r g b a) w h =
     concat (map (\<lambda>y. concat (map (\<lambda>x. [blurredBlock x y]) (indicesFrom 32 0 (int w - 32))))
       (indicesFrom 32 0 (int h - 32)))"
proof -
  have "(let blockData = extractBlock (uniformImage w h r g b a) x y blockSize blockSize;
             blockBlurScore = calculateLaplacianVariance blockData
         in if jlt blockBlurScore (Fin 500)
            then [\<lparr>region_x = x, region_y = y, region_width = blockSize, region_height = blockSize,
                   blurScore = jsub (Fin 1) (jmin (jdiv blockBlurScore (Fin 1000)) (Fin 1)),
                   region_type = (if jlt blockBlurScore (Fin 200) then Focus else Motion)\<rparr>]
            else []) = [blurredBlock x y]"
    if "x \<in> set (indicesFrom 32 0 (int w - 32))" "y \<in> set (indicesFrom 32 0 (int h - 32))" for x y
  proof -
    have "x + 32 \<le> w" "y + 32 \<le> h"
      using indicesFrom_bound[OF that(1)] indicesFrom_bound[OF that(2)] by simp_all
    then have "calculateLaplacianVariance
                 (extractBlock (uniformImage w h r g b a) x y blockSize blockSize) = Fin 0"
      by (rule uniform_block_variance)
    then show ?thesis
      by (simp add: Let_def blurredBlock_def blockSize_def)
  qed
  then show ?thesis
    unfolding detectBlurRegions_def
    by (intro arg_cong[where f = concat] map_cong refl) (simp_all add: blockSize_def)
qed

lemma indices_64: "indicesFrom 32 0 (int 64 - 32) = [0]"
  by (simp add: indicesFrom.simps)

lemma blurRegions_analyzeBlur:
  "blurRegions (analyzeBlur img) = detectBlurRegions img (width img) (height img)"
  by (simp add: analyzeBlur_def Let_def)

lemma uniformImage_dims [simp]:
  "width (uniformImage w h r g b a) = w" "height (uniformImage w h r g b a) = h"
  by (simp_all add: uniformImage_def)

lemma regions_64:
  "blurRegions (analyzeBlur (uniformImage 64 64 r g b a)) = [blurredBlock 0 0]"
  unfolding blurRegions_analyzeBlur uniformImage_dims uniform_regions indices_64 by simp



text \<open>
  Claim C1, at the input the claim names. On the 64 by 64 buffer of mid-gray pixels
  \<open>(128, 128, 128)\<close> the loops \<open>for (y = 0; y < height - blockSize; y += blockSize)\<close> and
  \<open>for (x = 0; x < width - blockSize; ...)\<close> visit the origin \<open>(0, 0)\<close> only, since
  \<open>32 < 64 - 32\<close> is false: \<open>analyzeBlur\<close> reports one region, not four. The blocks at
  \<open>(32, 0)\<close>, \<open>(0, 32)\<close> and \<open>(32, 32)\<close> fit inside the image and are not visited.
\<close>

theorem blurRegions_64_gray:
  "blurRegions (analyzeBlur (uniformImage 64 64 128 128 128 255)) =
     [\<lparr>region_x = 0, region_y = 0, region_width = 32, region_height = 32,
       blurScore = Fin 1, region_type = Focus\<rparr>] \<and>
   length (blurRegions (analyzeBlur (uniformImage 64 64 128 128 128 255))) = 1"
  by (simp add: regions_64 blurredBlock_def)

subsection \<open>Buffers below 3 pixels in a dimension\<close>

lemma interior_small: "w < 3 \<or> h < 3 \<Longrightarrow> interior w h = []"
  unfolding interior_def indicesFrom_interior by auto

lemma small_regions: "w < 3 \<or> h < 3 \<Longrightarrow> detectBlurRegions img w h = []"
  unfolding detectBlurRegions_def blockSize_def
  by (auto simp: indicesFrom_empty)

lemma small_analyzeBlur:
  assumes "width img < 3 \<or> height img < 3"
  shows "analyzeBlur img =
         \<lparr>overallBlurScore = NaN, blurType = Gaussian, blurRegions = [], blur_confidence = Fin 0.8\<rparr>"
proof -
  have i: "interior (width img) (height img) = []" by (rule interior_small[OF assms])
  have l: "calculateLaplacianVariance img = NaN"
    by (simp add: calculateLaplacianVariance_def i)
  have o: "combineBlurScores NaN s f = NaN" for s f
    by (simp add: combineBlurScores_def)
  have d: "calculateDirectionalBlur img dir = Fin 0" for dir
    by (cases dir) (simp_all add: calculateDirectionalBlur_def i)
  have t: "detectBlurType img NaN = Gaussian"
    by (simp add: detectBlurType_def d jgt_def)
  show ?thesis
    by (simp add: analyzeBlur_def Let_def l o t small_regions[OF assms]
          calculateBlurConfidence_def jgt_def)
qed

text \<open>
  Claim C6, at a buffer of 2 by 2 pixels. There is no interior pixel, both passes of
  \<open>calculateLaplacianVariance\<close> divide 0 by the count 0, and the overall blur score is
  \<open>NaN\<close>; the blur type comes out as gaussian and the confidence as 0.8. The result is
  not the fallback (overall score 1, type none) the claim describes.
\<close>

theorem analyzeBlur_small_buffer:
  "analyzeBlur (uniformImage 2 2 128 128 128 255) =
     \<lparr>overallBlurScore = NaN, blurType = Gaussian, blurRegions = [], blur_confidence = Fin 0.8\<rparr>"
  by (rule small_analyzeBlur) simp

subsection \<open>The basic metrics\<close>

lemma byte_bounds: "0 \<le> real (unat (w :: 8 word)) \<and> real (unat w) \<le> 255"
proof -
  have "unat w \<le> 255" using unsigned_less[of w, where 'a=nat] by simp
  then have "real (unat w) \<le> real 255" by (simp only: of_nat_le_iff)
  moreover have "0 \<le> real (unat w)" by (rule of_nat_0_le_iff)
  ultimately show ?thesis by simp
qed

lemma gray_Fin: "i + 2 < length d \<Longrightarrow> gray d i = Fin (grayR d i)"
  by (simp add: gray_def byteAt_def grayR_def)

lemma grayR_bounds: "0 \<le> grayR d i \<and> grayR d i \<le> 255"
  unfolding grayR_def
  using byte_bounds[of "d ! i"] byte_bounds[of "d ! (i + 1)"] byte_bounds[of "d ! (i + 2)"]
  by simp

lemma pixelSaturation_Fin: "i + 2 < length d \<Longrightarrow> pixelSaturation d i = Fin (satR d i)"
proof -
  assume a: "i + 2 < length d"
  define r where "r = real (unat (d ! i))"
  define g where "g = real (unat (d ! (i + 1)))"
  define b where "b = real (unat (d ! (i + 2)))"
  have bt: "byteAt d i = Fin r" "byteAt d (i + 1) = Fin g" "byteAt d (i + 2) = Fin b"
    using a by (simp_all add: byteAt_def r_def g_def b_def)
  show ?thesis
    unfolding pixelSaturation_def satR_def Let_def bt r_def[symmetric] g_def[symmetric] b_def[symmetric]
    by simp
qed

lemma satR_bounds: "0 \<le> satR d i \<and> satR d i \<le> 1"
proof -
  define r where "r = real (unat (d ! i))"
  define g where "g = real (unat (d ! (i + 1)))"
  define b where "b = real (unat (d ! (i + 2)))"
  have nn: "0 \<le> r" "0 \<le> g" "0 \<le> b"
    using byte_bounds[of "d ! i"] byte_bounds[of "d ! (i + 1)"] byte_bounds[of "d ! (i + 2)"]
    by (simp_all add: r_def g_def b_def)
  define mx where "mx = max (max r g) b"
  define mn where "mn = min (min r g) b"
  have o: "0 \<le> mn" "mn \<le> mx" using nn by (simp_all add: mx_def mn_def)
  have "0 \<le> (mx - mn) / mx \<and> (mx - mn) / mx \<le> 1" if "mx \<noteq> 0"
  proof -
    have "0 < mx" using o that by linarith
    then show ?thesis using o by (simp add: divide_le_eq)
  qed
  then show ?thesis
    unfolding satR_def Let_def r_def[symmetric] g_def[symmetric] b_def[symmetric]
      mx_def[symmetric] mn_def[symmetric]
    by simp
qed

lemma foldl_jadd_index:
  assumes "\<And>i. i \<in> set is \<Longrightarrow> F i = Fin (f i)"
  shows "foldl (\<lambda>acc i. jadd acc (F i)) (Fin a) is = Fin (a + (\<Sum>i\<leftarrow>is. f i))"
  using assms
proof (induction "is" arbitrary: a)
  case Nil
  then show ?case by simp
next
  case (Cons i "is")
  have "F i = Fin (f i)" using Cons.prems by simp
  moreover have "\<And>j. j \<in> set is \<Longrightarrow> F j = Fin (f j)" using Cons.prems by simp
  ultimately show ?case using Cons.IH[of "a + f i"] by (simp add: add.assoc)
qed

lemma foldl_jadd_pair:
  assumes "\<And>i. i \<in> set is \<Longrightarrow> F i = Fin (f i) \<and> G i = Fin (g i)"
  shows "foldl (\<lambda>(tb, ts) i. (jadd tb (F i), jadd ts (G i))) (Fin a, Fin b) is =
         (Fin (a + (\<Sum>i\<leftarrow>is. f i)), Fin (b + (\<Sum>i\<leftarrow>is. g i)))"
  using assms
proof (induction "is" arbitrary: a b)
  case Nil
  then show ?case by simp
next
  case (Cons i "is")
  have "F i = Fin (f i)" "G i = Fin (g i)" using Cons.prems by simp_all
  moreover have "\<And>j. j \<in> set is \<Longrightarrow> F j = Fin (f j) \<and> G j = Fin (g j)" using Cons.prems by simp
  ultimately show ?case using Cons.IH[of "a + f i" "b + g i"] by (simp add: add.assoc)
qed

lemma sum_list_bounds:
  fixes f :: "'a \<Rightarrow> real"
  assumes "\<And>x. x \<in> set xs \<Longrightarrow> lo \<le> f x \<and> f x \<le> hi"
  shows "lo * real (length xs) \<le> (\<Sum>x\<leftarrow>xs. f x) \<and> (\<Sum>x\<leftarrow>xs. f x) \<le> hi * real (length xs)"
  using assms
proof (induction xs)
  case Nil
  then show ?case by simp
next
  case (Cons x xs)
  have "lo \<le> f x \<and> f x \<le> hi" using Cons.prems by simp
  moreover have "lo * real (length xs) \<le> (\<Sum>x\<leftarrow>xs. f x) \<and> (\<Sum>x\<leftarrow>xs. f x) \<le> hi * real (length xs)"
    using Cons by simp
  ultimately show ?case by (simp add: algebra_simps)
qed

lemma data_indices:
  assumes "wellFormed img"
  shows "indicesFrom 4 0 (int (length (data img))) = map ((*) 4) [0..<width img * height img]"
    and "\<And>i. i \<in> set (map ((*) 4) [0..<width img * height img]) \<Longrightarrow> i + 2 < length (data img)"
proof -
  let ?n = "width img * height img"
  have len: "length (data img) = 4 * ?n" using assms by (simp add: wellFormed_def)
  show "indicesFrom 4 0 (int (length (data img))) = map ((*) 4) [0..<?n]"
    using indicesFrom_mult[of 4 0 ?n] by (simp add: len)
  show "\<And>i. i \<in> set (map ((*) 4) [0..<?n]) \<Longrightarrow> i + 2 < length (data img)"
    by (auto simp: len)
qed

lemma wellFormed_sized: "wellFormed img \<Longrightarrow> sized img"
  by (simp add: wellFormed_def sized_def)

lemma sharpness_Fin:
  assumes "sized img"
  shows "\<exists>s. calculateSharpness img = Fin s \<and> 0 \<le> s"
proof -
  have "calculateSharpness img =
        Fin (0 + (\<Sum>(x, y)\<leftarrow>interior (width img) (height img). \<bar>convR laplacianKernel img x y\<bar>))"
    unfolding calculateSharpness_def
    by (rule foldl_jadd_Fin) (simp add: applyKernel_Fin[OF assms])
  moreover have "0 \<le> (\<Sum>(x, y)\<leftarrow>interior (width img) (height img). \<bar>convR laplacianKernel img x y\<bar>)"
    by (rule sum_list_nonneg_prod) simp
  ultimately show ?thesis by simp
qed

lemma offsets3_range:
  "(dx, dy) \<in> set offsets3 \<Longrightarrow> -1 \<le> dx \<and> dx \<le> 1 \<and> -1 \<le> dy \<and> dy \<le> 1"
  by (auto simp: offsets3_list)

lemma foldl_jadd_count:
  assumes "\<And>dx dy. (dx, dy) \<in> set ps \<Longrightarrow> F dx dy = Fin (f dx dy)"
  shows "foldl (\<lambda>(lv, count) (dx, dy). (jadd lv (F dx dy), count + 1)) (Fin a, n) ps =
         (Fin (a + (\<Sum>(dx, dy)\<leftarrow>ps. f dx dy)), n + length ps)"
  using assms
proof (induction ps arbitrary: a n)
  case Nil
  then show ?case by simp
next
  case (Cons p ps)
  obtain dx dy where p: "p = (dx, dy)" by (cases p)
  have "F dx dy = Fin (f dx dy)" using Cons.prems p by simp
  moreover have "\<And>dx dy. (dx, dy) \<in> set ps \<Longrightarrow> F dx dy = Fin (f dx dy)" using Cons.prems by simp
  ultimately show ?case using Cons.IH[of "a + f dx dy" "n + 1"] p by (simp add: add.assoc)
qed

lemma localVariance_Fin:
  assumes "sized img" "(x, y) \<in> set (interior (width img) (height img))"
  shows "localVariance img x y = Fin (localVarR img x y) \<and> 0 \<le> localVarR img x y"
proof -
  have r: "1 \<le> x" "x + 1 < width img" "1 \<le> y" "y + 1 < height img"
    using assms(2) by (simp_all add: interior_iff)
  have c: "grayAt img x y = Fin (lumR img x y)"
    using r by (intro grayAt_Fin[OF assms(1)]) simp_all
  let ?f = "\<lambda>dx dy. (lumR img (nat (int x + dx)) (nat (int y + dy)) - lumR img x y) *
                     (lumR img (nat (int x + dx)) (nat (int y + dy)) - lumR img x y)"
  have g: "jpow2 (jsub (grayAt img (nat (int x + dx)) (nat (int y + dy))) (Fin (lumR img x y))) =
           Fin (?f dx dy)"
    if "(dx, dy) \<in> set offsets3" for dx dy
  proof -
    have "nat (int x + dx) < width img" "nat (int y + dy) < height img"
      using offsets3_range[OF that] r by linarith+
    then show ?thesis by (simp add: grayAt_Fin[OF assms(1)])
  qed
  have "length offsets3 = 9" by (simp add: offsets3_list)
  then have "localVariance img x y = Fin ((\<Sum>(dx, dy)\<leftarrow>offsets3. ?f dx dy) / 9)"
    unfolding localVariance_def Let_def c
    by (subst foldl_jadd_count[of offsets3 _ ?f, OF g]) simp_all
  moreover have "0 \<le> (\<Sum>(dx, dy)\<leftarrow>offsets3. ?f dx dy) / 9"
    by (intro divide_nonneg_nonneg sum_list_nonneg) auto
  ultimately show ?thesis unfolding localVarR_def by blast
qed

lemma noise_Fin:
  assumes "sized img"
  shows "\<exists>s. calculateNoise img = Fin s \<and> 0 \<le> s"
proof -
  note f = localVariance_Fin[OF assms]
  have "calculateNoise img =
        Fin (0 + (\<Sum>(x, y)\<leftarrow>interior (width img) (height img). localVarR img x y))"
    unfolding calculateNoise_def by (rule foldl_jadd_Fin) (simp add: f)
  moreover have "0 \<le> (\<Sum>(x, y)\<leftarrow>interior (width img) (height img). localVarR img x y)"
    by (rule sum_list_nonneg_prod) (simp add: f)
  ultimately show ?thesis by simp
qed

lemma metrics_ranges_aux:
  assumes "wellFormed img"
  shows "inRange 0 1 (sharpness (calculateMetrics img))"
    and "inRange 0 1 (contrast (calculateMetrics img))"
    and "inRange 0 1 (brightness (calculateMetrics img))"
    and "inRange 0 1 (saturation (calculateMetrics img))"
    and "inRange 0 1 (noise (calculateMetrics img))"
proof -
  let ?n = "width img * height img"
  let ?is = "map ((*) 4) [0..<?n]"
  have s: "sized img" using assms by (rule wellFormed_sized)
  have n: "0 < ?n" using assms by (simp add: wellFormed_def)
  have len: "length (data img) = 4 * ?n" using assms by (simp add: wellFormed_def)
  note idx = data_indices[OF assms]
  have inr: "i + 2 < length (data img)" if "i \<in> set ?is" for i
    using idx(2)[OF that] .
  define T where "T = (\<Sum>i\<leftarrow>?is. grayR (data img) i)"
  define S where "S = (\<Sum>i\<leftarrow>?is. satR (data img) i)"
  have pair: "foldl (\<lambda>(tb, ts) i. (jadd tb (gray (data img) i), jadd ts (pixelSaturation (data img) i)))
                (Fin 0, Fin 0) ?is = (Fin (0 + T), Fin (0 + S))"
    unfolding T_def S_def
    by (rule foldl_jadd_pair) (intro conjI gray_Fin pixelSaturation_Fin inr; assumption)
  have Tb: "0 \<le> T \<and> T \<le> 255 * real ?n"
    using sum_list_bounds[of ?is 0 "grayR (data img)" 255] grayR_bounds
    by (simp add: T_def)
  have Sb: "0 \<le> S \<and> S \<le> 1 * real ?n"
    using sum_list_bounds[of ?is 0 "satR (data img)" 1] satR_bounds
    by (simp add: S_def)
  obtain sh where sh: "calculateSharpness img = Fin sh" "0 \<le> sh" using sharpness_Fin[OF s] by blast
  obtain no where no: "calculateNoise img = Fin no" "0 \<le> no" using noise_Fin[OF s] by blast
  define N where "N = real ?n"
  have N: "0 < N" using n by (simp add: N_def)
  have l4: "real (length (data img)) / 4 = N" by (simp add: len N_def)
  define V where "V = (\<Sum>i\<leftarrow>?is. (grayR (data img) i - T / N) * (grayR (data img) i - T / N))"
  have var: "foldl (\<lambda>v i. jadd v (jpow2 (jsub (gray (data img) i) (Fin (T / N))))) (Fin 0) ?is =
             Fin (0 + V)"
    unfolding V_def by (rule foldl_jadd_index) (simp only: gray_Fin[OF inr] jsub_Fin jpow2_Fin)
  have V0: "0 \<le> V" unfolding V_def by (rule sum_list_nonneg) auto
  have Vn: "\<not> V / N < 0"
    using divide_nonneg_nonneg[OF V0, of N] N by simp
  have con: "calculateContrast img (Fin (T / N)) = Fin (sqrt (V / N))"
    unfolding calculateContrast_def Let_def idx(1) var
    using N Vn by (simp add: l4)
  have m: "calculateMetrics img =
      \<lparr>sharpness = jmin (Fin (sh / N)) (Fin 1),
       contrast = jmin (Fin (sqrt (V / N) / 255)) (Fin 1),
       brightness = Fin (T / N / 255),
       saturation = Fin (S / N),
       noise = jmin (Fin (no / N)) (Fin 1)\<rparr>"
    unfolding calculateMetrics_def Let_def idx(1) pair N_def[symmetric]
    using N by (simp add: sh no con)
  have Tb': "T \<le> 255 * N" and Sb': "S \<le> N" using Tb Sb by (simp_all add: N_def)
  show "inRange 0 1 (sharpness (calculateMetrics img))"
    unfolding m using sh(2) N by simp
  show "inRange 0 1 (contrast (calculateMetrics img))"
    unfolding m using V0 N by simp
  show "inRange 0 1 (brightness (calculateMetrics img))"
    unfolding m using Tb Tb' N by (simp add: divide_le_eq)
  show "inRange 0 1 (saturation (calculateMetrics img))"
    unfolding m using Sb Sb' N by (simp add: divide_le_eq)
  show "inRange 0 1 (noise (calculateMetrics img))"
    unfolding m using no(2) N by simp
qed

subsection \<open>The confidences\<close>

lemma sobel_Fin:
  assumes "sized img" "interior (width img) (height img) \<noteq> []"
  shows "\<exists>s. calculateSobelVariance img = Fin s"
proof -
  let ?m = "\<lambda>x y. sqrt (convR sobelX img x y * convR sobelX img x y +
                         convR sobelY img x y * convR sobelY img x y)"
  have nn: "\<not> a * a + b * b < 0" for a b :: real
    by (simp add: not_less)
  have "foldl (\<lambda>total (x, y).
                 let gx = applyKernel sobelX img x y; gy = applyKernel sobelY img x y
                 in jadd total (jsqrt (jadd (jmul gx gx) (jmul gy gy))))
          (Fin 0) (interior (width img) (height img)) =
        Fin (0 + (\<Sum>(x, y)\<leftarrow>interior (width img) (height img). ?m x y))"
    unfolding Let_def
    by (rule foldl_jadd_Fin) (simp add: applyKernel_Fin[OF assms(1)] nn)
  then show ?thesis
    unfolding calculateSobelVariance_def Let_def using assms(2) by simp
qed

lemma gradMagnitude_Fin:
  assumes "sized img" "(x, y) \<in> set (interior (width img) (height img))"
  shows "\<exists>m. gradMagnitude img x y = Fin m"
proof -
  have r: "1 \<le> x" "x + 1 < width img" "1 \<le> y" "y + 1 < height img"
    using assms(2) by (simp_all add: interior_iff)
  have g: "grayAt img x y = Fin (lumR img x y)"
    "grayAt img (x + 1) y = Fin (lumR img (x + 1) y)"
    "grayAt img x (y + 1) = Fin (lumR img x (y + 1))"
    using r by (auto intro!: grayAt_Fin[OF assms(1)])
  have nn: "\<not> a * a + b * b < 0" for a b :: real
    by (simp add: not_less)
  show ?thesis
    unfolding gradMagnitude_def Let_def g by (simp add: nn)
qed

lemma fft_fold_Fin:
  assumes "\<And>x y. (x, y) \<in> set ps \<Longrightarrow> \<exists>m. M x y = Fin m"
  shows "\<exists>h t. foldl (\<lambda>(high, total) (x, y).
                    let m = M x y
                    in (if jgt m (Fin 10) then jadd high m else high, jadd total m))
             (Fin a, Fin b) ps = (Fin h, Fin t)"
  using assms
proof (induction ps arbitrary: a b)
  case Nil
  then show ?case by simp
next
  case (Cons p ps)
  obtain x y where p: "p = (x, y)" by (cases p)
  obtain m where m: "M x y = Fin m" using Cons.prems[of x y] p by auto
  have r: "\<And>x y. (x, y) \<in> set ps \<Longrightarrow> \<exists>m. M x y = Fin m" using Cons.prems by simp
  show ?case
    using Cons.IH[OF r, of "a + m" "b + m"] Cons.IH[OF r, of a "b + m"]
    by (cases "10 < m") (simp_all add: p m Let_def)
qed

lemma fft_Fin:
  assumes "sized img"
  shows "\<exists>f. calculateFFTSharpness img = Fin f"
proof -
  obtain h t where
    "foldl (\<lambda>(high, total) (x, y).
              let m = gradMagnitude img x y
              in (if jgt m (Fin 10) then jadd high m else high, jadd total m))
       (Fin 0, Fin 0) (interior (width img) (height img)) = (Fin h, Fin t)"
    using fft_fold_Fin[of "interior (width img) (height img)" "gradMagnitude img" 0 0]
      gradMagnitude_Fin[OF assms] by blast
  then show ?thesis
    unfolding calculateFFTSharpness_def by simp
qed

lemma overall_Fin:
  assumes "sized img" "interior (width img) (height img) \<noteq> []"
  shows "\<exists>v. overallBlurScore (analyzeBlur img) = Fin v"
proof -
  obtain l where l: "calculateLaplacianVariance img = Fin l"
    using laplacianVariance_nonneg[OF assms] by blast
  obtain s where s: "calculateSobelVariance img = Fin s" using sobel_Fin[OF assms] by blast
  obtain f where f: "calculateFFTSharpness img = Fin f" using fft_Fin[OF assms(1)] by blast
  show ?thesis
    by (simp add: analyzeBlur_def Let_def l s f combineBlurScores_def)
qed

lemma indicesFrom_nonempty: "indicesFrom s i limit \<noteq> [] \<Longrightarrow> int i < limit"
  by (subst (asm) indicesFrom.simps) (simp split: if_splits)

lemma regions_nonempty_dims:
  assumes "detectBlurRegions img w h \<noteq> []"
  shows "32 < w \<and> 32 < h"
proof -
  have "indicesFrom blockSize 0 (int h - int blockSize) \<noteq> []"
    using assms unfolding detectBlurRegions_def by auto
  moreover have "indicesFrom blockSize 0 (int w - int blockSize) \<noteq> []"
    using assms unfolding detectBlurRegions_def by auto
  ultimately show ?thesis
    using indicesFrom_nonempty[of blockSize 0 "int h - int blockSize"]
      indicesFrom_nonempty[of blockSize 0 "int w - int blockSize"]
    by (simp add: blockSize_def)
qed

lemma region_sum_Fin:
  assumes "\<And>r. r \<in> set rs \<Longrightarrow> \<exists>s. blurScore r = Fin s"
  shows "\<exists>t. foldl (\<lambda>sum region. jadd sum (blurScore region)) (Fin a) rs = Fin t"
  using assms
proof (induction rs arbitrary: a)
  case Nil
  then show ?case by simp
next
  case (Cons r rs)
  obtain s where s: "blurScore r = Fin s" using Cons.prems[of r] by auto
  have "\<And>r. r \<in> set rs \<Longrightarrow> \<exists>s. blurScore r = Fin s" using Cons.prems by simp
  from Cons.IH[OF this, of "a + s"] show ?case by (simp add: s)
qed

lemma blurConfidence_Fin:
  assumes "regions \<noteq> [] \<Longrightarrow> (\<exists>v. overall = Fin v) \<and> (\<forall>r \<in> set regions. \<exists>s. blurScore r = Fin s)"
  shows "inRange 0.3 0.95 (calculateBlurConfidence overall regions)"
proof (cases "regions = []")
  case True
  have "inRange 0.3 0.95 (jmax (Fin 0.3) (jmin (Fin 0.95) (if b then jadd (Fin 0.8) (Fin 0.1) else Fin 0.8)))"
    for b by simp
  then show ?thesis unfolding calculateBlurConfidence_def Let_def using True by simp
next
  case False
  obtain v where v: "overall = Fin v" using assms False by blast
  obtain t where t: "foldl (\<lambda>sum region. jadd sum (blurScore region)) (Fin 0) regions = Fin t"
    using region_sum_Fin[of regions 0] assms False by blast
  have n: "real (length regions) \<noteq> 0" using False by simp
  show ?thesis
    unfolding calculateBlurConfidence_def Let_def v t using False by simp
qed

lemma blurConfidence_range:
  assumes "sized img"
  shows "inRange 0.3 0.95 (blur_confidence (analyzeBlur img))"
proof -
  let ?rs = "detectBlurRegions img (width img) (height img)"
  have "(\<exists>v. overallBlurScore (analyzeBlur img) = Fin v) \<and> (\<forall>r \<in> set ?rs. \<exists>s. blurScore r = Fin s)"
    if ne: "?rs \<noteq> []"
  proof -
    have "32 < width img \<and> 32 < height img" using regions_nonempty_dims[OF ne] .
    then have "(1, 1) \<in> set (interior (width img) (height img))" by (simp add: interior_iff)
    then have "interior (width img) (height img) \<noteq> []" by auto
    then have "\<exists>v. overallBlurScore (analyzeBlur img) = Fin v" by (rule overall_Fin[OF assms])
    moreover have "\<forall>r \<in> set ?rs. \<exists>s. blurScore r = Fin s"
      using region_props by blast
    ultimately show ?thesis by blast
  qed
  then have "inRange 0.3 0.95 (calculateBlurConfidence (overallBlurScore (analyzeBlur img)) ?rs)"
    by (rule blurConfidence_Fin)
  moreover have "blur_confidence (analyzeBlur img) =
                 calculateBlurConfidence (overallBlurScore (analyzeBlur img)) ?rs"
    by (simp add: analyzeBlur_def Let_def)
  ultimately show ?thesis by simp
qed

lemma classConfidence_range: "inRange 0.3 0.95 (calculateClassificationConfidence f m)"
  by (simp add: calculateClassificationConfidence_def Let_def)

lemma confidence_range:
  assumes "inRange 0.3 0.95 (ai_confidence a)"
  shows "inRange 0.3 0.95 (calculateConfidence m iss (Some a))"
proof -
  obtain c where c: "ai_confidence a = Fin c" using assms by (cases "ai_confidence a") simp_all
  have k: "inRange 0.3 0.95 (jmax (Fin 0.3) (jmin (Fin 0.95)
            (if b4 then jsub x4 (Fin 0.05) else x4)))"
    if "\<exists>v. x4 = Fin v" for b4 x4 using that by auto
  have s: "\<exists>v. (if b then jsub x (Fin d) else x) = Fin v" if "\<exists>v. x = Fin v" for b x d
    using that by auto
  have "jdiv (jadd (Fin 0.8) (Fin c)) (Fin 2) = Fin ((0.8 + c) / 2)" by simp
  then have c1: "\<exists>v. (if truthy (Fin c) then jdiv (jadd (Fin 0.8) (Fin c)) (Fin 2) else Fin 0.8) = Fin v"
    by (cases "truthy (Fin c)") (simp_all only: if_True if_False, blast+)
  show ?thesis
    unfolding calculateConfidence_def Let_def option.case c
    by (intro k s c1)
qed

lemma classify_confidence:
  "ai_confidence (classifyImage img m b c rnd) =
   calculateClassificationConfidence (fst (extractImageFeatures img m b c rnd 0)) m"
  by (simp add: classifyImage_def split: prod.split)

text \<open>
  Claim C5. For every well-formed buffer and every run of the pseudo-random source, the
  five metrics returned by the analysis are finite numbers in \<open>[0, 1]\<close>, and the three
  confidences (of the blur analysis, of the classification, and of the analysis as a
  whole) are finite numbers in \<open>[0.3, 0.95]\<close>.
\<close>

theorem analysis_ranges:
  assumes "wellFormed img"
  shows "inRange 0 1 (sharpness (metrics (analyzeImage img rnd))) \<and>
         inRange 0 1 (contrast (metrics (analyzeImage img rnd))) \<and>
         inRange 0 1 (brightness (metrics (analyzeImage img rnd))) \<and>
         inRange 0 1 (saturation (metrics (analyzeImage img rnd))) \<and>
         inRange 0 1 (noise (metrics (analyzeImage img rnd))) \<and>
         inRange 0.3 0.95 (blur_confidence (blurAnalysis (analyzeImage img rnd))) \<and>
         inRange 0.3 0.95 (ai_confidence (aiClassification (analyzeImage img rnd))) \<and>
         inRange 0.3 0.95 (confidence (analyzeImage img rnd))"
proof -
  have m: "metrics (analyzeImage img rnd) = calculateMetrics img"
    and b: "blurAnalysis (analyzeImage img rnd) = analyzeBlur img"
    by (simp_all add: analyzeImage_def Let_def)
  let ?ai = "classifyImage img (calculateMetrics img) (Some (analyzeBlur img))
               (Some (analyzeContrastBrightness img)) rnd"
  have a: "aiClassification (analyzeImage img rnd) = ?ai"
    by (simp add: analyzeImage_def Let_def)
  have c: "confidence (analyzeImage img rnd) =
           calculateConfidence (calculateMetrics img)
             (detectIssues (calculateMetrics img) (Some (analyzeBlur img))
                (Some (analyzeContrastBrightness img))) (Some ?ai)"
    by (simp add: analyzeImage_def Let_def)
  have ac: "inRange 0.3 0.95 (ai_confidence ?ai)"
    unfolding classify_confidence by (rule classConfidence_range)
  show ?thesis
    unfolding m b a c
    using metrics_ranges_aux[OF assms] blurConfidence_range[OF wellFormed_sized[OF assms]]
      ac confidence_range[OF ac]
    by simp
qed

theorem analysis_ranges_witness:
  "wellFormed twoPixels \<and>
   inRange 0 1 (sharpness (metrics (analyzeImage twoPixels draws03))) \<and>
   inRange 0 1 (contrast (metrics (analyzeImage twoPixels draws03))) \<and>
   inRange 0 1 (brightness (metrics (analyzeImage twoPixels draws03))) \<and>
   inRange 0 1 (saturation (metrics (analyzeImage twoPixels draws03))) \<and>
   inRange 0 1 (noise (metrics (analyzeImage twoPixels draws03))) \<and>
   inRange 0.3 0.95 (blur_confidence (blurAnalysis (analyzeImage twoPixels draws03))) \<and>
   inRange 0.3 0.95 (ai_confidence (aiClassification (analyzeImage twoPixels draws03))) \<and>
   inRange 0.3 0.95 (confidence (analyzeImage twoPixels draws03))"
proof -
  have wf: "wellFormed twoPixels" by (simp add: wellFormed_def twoPixels_def)
  show ?thesis using wf analysis_ranges[OF wf, of draws03] by simp
qed

subsection \<open>Two runs on the same buffer\<close>

lemma interior3: "interior 3 3 = [(1, 1)]"
  unfolding interior_def indicesFrom_interior by (simp add: upt_rec)

lemma indices36: "indicesFrom 4 0 36 = [0, 4, 8, 12, 16, 20, 24, 28, 32]"
  by (simp add: indicesFrom.simps)

lemma black3_data:
  "black3 = \<lparr>width = 3, height = 3,
             data = [0,0,0,255, 0,0,0,255, 0,0,0,255,
                     0,0,0,255, 0,0,0,255, 0,0,0,255,
                     0,0,0,255, 0,0,0,255, 0,0,0,255]\<rparr>"
  by (simp add: black3_def uniformImage_def numeral_eq_Suc)

lemma black3_metrics:
  "calculateMetrics black3 =
     \<lparr>sharpness = Fin 0, contrast = Fin 0, brightness = Fin 0, saturation = Fin 0, noise = Fin 0\<rparr>"
  unfolding calculateMetrics_def calculateSharpness_def calculateNoise_def calculateContrast_def
    black3_data
  by (simp add: interior3 indices36 Let_def applyKernel_def localVariance_def offsets3_list
        grayAt_def gray_def byteAt_def pixelIndex_def pixelSaturation_def laplacianKernel_def)

lemma black3_blur:
  "analyzeBlur black3 =
     \<lparr>overallBlurScore = Fin 0, blurType = Focus, blurRegions = [], blur_confidence = Fin 0.9\<rparr>"
  unfolding analyzeBlur_def calculateLaplacianVariance_def calculateSobelVariance_def
    calculateFFTSharpness_def detectBlurType_def detectBlurRegions_def calculateDirectionalBlur_def
    calculateBlurConfidence_def combineBlurScores_def gradMagnitude_def
    black3_data
  by (simp add: interior3 Let_def applyKernel_def offsets3_list indicesFrom_empty blockSize_def
        grayAt_def gray_def byteAt_def pixelIndex_def laplacianKernel_def sobelX_def sobelY_def)

lemma black3_wellFormed: "wellFormed black3"
  unfolding black3_def by (rule uniformImage_wellFormed) simp_all

lemma black3_histogram: "luminance (calculateHistogram black3) = spike 0 9"
proof -
  have "lumIndex (unat (0 :: 8 word)) (unat (0 :: 8 word)) (unat (0 :: 8 word)) = 0"
    by (simp add: lumIndex_def)
  then show ?thesis
    using uniform_histogram[OF black3_wellFormed, of 0 0 0] uniformImage_uniformColor[of 3 3 0 0 0 255]
    by (simp add: black3_def)
qed

lemma black3_exposure:
  "optimalExposure (exposureAnalysis (analyzeContrastBrightness black3)) = False"
proof -
  have c: "countAt (spike 0 9) i = (if i = 0 then Fin 9 else Fin 0)" if "i < 256" for i
    using that by (simp add: countAt_def spike_nth)
  have "foldl (\<lambda>s i. jadd s (countAt (spike 0 9) i)) (Fin 0) [0..<11] = Fin 9"
    by (simp add: upt_rec c)
  then show ?thesis
    by (simp add: analyzeContrastBrightness_def analyzeExposure_def Let_def black3_histogram
          totalCount_sum sum_list_spike)
qed

lemma black3_technical:
  "calculateTechnicalScore (calculateMetrics black3) (Some (analyzeBlur black3))
     (Some (analyzeContrastBrightness black3)) = Fin 0.3"
  by (simp add: calculateTechnicalScore_def black3_metrics black3_blur black3_exposure
        w_sharpness_def w_contrast_def w_brightness_def w_saturation_def w_noise_def)

lemma black3_issues:
  "length (detectIssues (calculateMetrics black3) (Some (analyzeBlur black3))
     (Some (analyzeContrastBrightness black3))) \<le> 3"
proof -
  have "length (detectIssues m b c) = length (map issue_type (detectIssues m b c))" for m b c
    by simp
  then show ?thesis
    unfolding issue_types_shape by (simp add: black3_metrics)
qed

lemma black3_classify03:
  "qualityClass (classifyImage black3 (calculateMetrics black3) (Some (analyzeBlur black3))
     (Some (analyzeContrastBrightness black3)) draws03) = PoorClass \<and>
   ai_confidence (classifyImage black3 (calculateMetrics black3) (Some (analyzeBlur black3))
     (Some (analyzeContrastBrightness black3)) draws03) = Fin 0.6"
  by (simp add: classifyImage_def extractImageFeatures_def calculateAestheticScore_def
        calculateCompositionScore_def analyzeRuleOfThirds_def analyzeColorDistribution_def
        analyzeEdgeDistribution_def analyzeBalance_def analyzeSymmetry_def analyzeLeadingLines_def
        analyzeDepth_def black3_technical predictQualityClass_def overallScore_def
        calculateClassificationConfidence_def draws03_def Let_def)

lemma black3_classify09:
  "qualityClass (classifyImage black3 (calculateMetrics black3) (Some (analyzeBlur black3))
     (Some (analyzeContrastBrightness black3)) draws09) = FairClass \<and>
   ai_confidence (classifyImage black3 (calculateMetrics black3) (Some (analyzeBlur black3))
     (Some (analyzeContrastBrightness black3)) draws09) = Fin 0.8"
  by (simp add: classifyImage_def extractImageFeatures_def calculateAestheticScore_def
        calculateCompositionScore_def analyzeRuleOfThirds_def analyzeColorDistribution_def
        analyzeEdgeDistribution_def analyzeBalance_def analyzeSymmetry_def analyzeLeadingLines_def
        analyzeDepth_def black3_technical predictQualityClass_def overallScore_def
        calculateClassificationConfidence_def draws09_def Let_def)

lemma classify_draws:
  assumes "map rnd1 [0..<7] = map rnd2 [0..<7]"
  shows "classifyImage img m b c rnd1 = classifyImage img m b c rnd2"
proof -
  have "[0..<7] = [0, 1, 2, 3, 4, 5, 6::nat]" by (simp add: upt_rec)
  then have e: "rnd1 0 = rnd2 0" "rnd1 1 = rnd2 1" "rnd1 2 = rnd2 2" "rnd1 3 = rnd2 3"
    "rnd1 4 = rnd2 4" "rnd1 5 = rnd2 5" "rnd1 6 = rnd2 6"
    using assms by simp_all
  have s: "Suc 0 = 1" "Suc 1 = 2" "Suc 2 = 3" "Suc 3 = 4" "Suc 4 = 5" "Suc 5 = 6" by simp_all
  have "extractImageFeatures img m b c rnd1 0 = extractImageFeatures img m b c rnd2 0"
    unfolding extractImageFeatures_def calculateAestheticScore_def
      calculateCompositionScore_def analyzeRuleOfThirds_def analyzeColorDistribution_def
      analyzeEdgeDistribution_def analyzeBalance_def analyzeSymmetry_def analyzeLeadingLines_def
      analyzeDepth_def Let_def prod.case s e ..
  then show ?thesis by (simp add: classifyImage_def)
qed

text \<open>
  Claim C4, as the code has it. Two runs of the analysis on the same buffer return the
  same metrics, blur analysis, contrast and brightness analysis and issue list, whatever
  the pseudo-random source returns. The verdict and the overall confidence are computed
  from the classification, which reads the first seven pseudo-random values (four for
  the aesthetic score, three for the composition score): they agree when the two runs
  draw the same seven values.
\<close>

theorem analyzeImage_runs:
  "metrics (analyzeImage img rnd1) = metrics (analyzeImage img rnd2) \<and>
   blurAnalysis (analyzeImage img rnd1) = blurAnalysis (analyzeImage img rnd2) \<and>
   contrastBrightnessAnalysis (analyzeImage img rnd1) =
     contrastBrightnessAnalysis (analyzeImage img rnd2) \<and>
   issues (analyzeImage img rnd1) = issues (analyzeImage img rnd2) \<and>
   (map rnd1 [0..<7] = map rnd2 [0..<7] \<longrightarrow>
      overallQuality (analyzeImage img rnd1) = overallQuality (analyzeImage img rnd2) \<and>
      confidence (analyzeImage img rnd1) = confidence (analyzeImage img rnd2))"
proof -
  have "overallQuality (analyzeImage img rnd1) = overallQuality (analyzeImage img rnd2) \<and>
        confidence (analyzeImage img rnd1) = confidence (analyzeImage img rnd2)"
    if "map rnd1 [0..<7] = map rnd2 [0..<7]"
    by (simp add: analyzeImage_def Let_def classify_draws[OF that])
  then show ?thesis
    by (simp add: analyzeImage_def Let_def del: map_eq_conv)
qed

theorem analyzeImage_runs_witness:
  "map draws03 [0..<7] = map drawsLate [0..<7] \<and>
   draws03 7 \<noteq> drawsLate 7 \<and>
   overallQuality (analyzeImage black3 draws03) = overallQuality (analyzeImage black3 drawsLate) \<and>
   confidence (analyzeImage black3 draws03) = confidence (analyzeImage black3 drawsLate)"
proof -
  have e: "map draws03 [0..<7] = map drawsLate [0..<7]"
    by (simp add: draws03_def drawsLate_def)
  have d: "draws03 7 \<noteq> drawsLate 7" by (simp add: draws03_def drawsLate_def)
  show ?thesis
    using e d analyzeImage_runs[of black3 draws03 drawsLate] by simp
qed

text \<open>
  On the 3 by 3 black buffer the technical score is 0.3. When every draw is 0.3 the
  overall score is \<open>0.4 * 0.3 + 0.3 * 0.79 + 0.3 * 0.4 = 0.477\<close>: class poor, verdict Poor,
  classification confidence 0.6 and overall confidence 0.4. When every draw is 0.9 it
  is \<open>0.4 * 0.3 + 0.3 * 0.97 + 0.3 * 0.7 = 0.621\<close>: class fair, verdict Fair,
  classification confidence 0.8 and overall confidence 0.5.
\<close>

theorem analyzeImage_random_counterexample:
  "overallQuality (analyzeImage black3 draws03) = Poor \<and>
   overallQuality (analyzeImage black3 draws09) = Fair \<and>
   confidence (analyzeImage black3 draws03) = Fin 0.4 \<and>
   confidence (analyzeImage black3 draws09) = Fin 0.5"
proof -
  have l: "\<not> 3 < length (detectIssues (calculateMetrics black3) (Some (analyzeBlur black3))
     (Some (analyzeContrastBrightness black3)))"
    using black3_issues by simp
  have m: "brightness (calculateMetrics black3) = Fin 0" "contrast (calculateMetrics black3) = Fin 0"
    "sharpness (calculateMetrics black3) = Fin 0"
    by (simp_all add: black3_metrics)
  show ?thesis
    unfolding analyzeImage_def Let_def
    by (simp add: determineOverallQuality_def calculateConfidence_def black3_classify03
          black3_classify09 l m)
qed

end
